theory Spec2Isabelle
  imports Main "HOL-Library.Char_ord" "HOL-Library.List_Lexorder" "HOL-Library.AList"
begin

section \<open>Error codes\<close>

text \<open>
  \<^verbatim>\<open>isErrorCodeValid\<close> (analyse.go). A Go string is a byte sequence, here a
  \<open>string\<close> of 8-bit characters. The source reads the first and the last byte by index and
  then ranges over the runes of the string; every accepted rune is ASCII, and a byte of
  \<open>0x80\<close> or more only ever decodes to a rune of \<open>0x80\<close> or more (or to U+FFFD), so the
  rune loop accepts exactly the strings whose bytes all pass the test.
\<close>

fun validChars :: "string \<Rightarrow> bool" where
  "validChars [] = True"
| "validChars (c # cs) =
     (if \<not> (c = CHR ''-'' \<or> (c \<ge> CHR ''a'' \<and> c \<le> CHR ''z'') \<or> (c \<ge> CHR ''A'' \<and> c \<le> CHR ''Z'')
             \<or> (c \<ge> CHR ''0'' \<and> c \<le> CHR ''9''))
      then False
      else validChars cs)"

definition isErrorCodeValid :: "string \<Rightarrow> bool" where
  "isErrorCodeValid code =
     (if length code = 0 then False
      else if code ! 0 = CHR ''-'' \<or> (code ! 0 \<ge> CHR ''0'' \<and> code ! 0 \<le> CHR ''9'') then False
      else if code ! (length code - 1) = CHR ''-'' then False
      else validChars code)"

text \<open>
  The two regular expressions of the specification, read off directly:
  \<open>^[A-Za-z]$\<close> is one letter; \<open>^[A-Za-z][A-Za-z0-9-]*[A-Za-z0-9]$\<close> is a letter, any
  number of letters, digits and dashes, and a final letter or digit.
\<close>

definition isLetter :: "char \<Rightarrow> bool" where
  "isLetter c = ((CHR ''A'' \<le> c \<and> c \<le> CHR ''Z'') \<or> (CHR ''a'' \<le> c \<and> c \<le> CHR ''z''))"

definition isLetterOrDigit :: "char \<Rightarrow> bool" where
  "isLetterOrDigit c = (isLetter c \<or> (CHR ''0'' \<le> c \<and> c \<le> CHR ''9''))"

definition isLetterDigitOrDash :: "char \<Rightarrow> bool" where
  "isLetterDigitOrDash c = (isLetterOrDigit c \<or> c = CHR ''-'')"

definition matchesSingleLetter :: "string \<Rightarrow> bool" where
  "matchesSingleLetter s = (case s of [c] \<Rightarrow> isLetter c | _ \<Rightarrow> False)"

definition matchesLongCode :: "string \<Rightarrow> bool" where
  "matchesLongCode s =
     (case s of
        c # d # rest \<Rightarrow>
          isLetter c \<and> list_all isLetterDigitOrDash (butlast (d # rest)) \<and> isLetterOrDigit (last (d # rest))
      | _ \<Rightarrow> False)"

definition matchesErrorCodeRegex :: "string \<Rightarrow> bool" where
  "matchesErrorCodeRegex s = (matchesSingleLetter s \<or> matchesLongCode s)"

section \<open>Syntax trees and the services of the host\<close>

text \<open>
  The analyzer reads the syntax trees of \<open>go/ast\<close> and the results of the type checker.
  Both are modelled to the extent the analyzer looks at them. A position (\<open>token.Pos\<close>)
  is a natural number; a node carries its position, which also stands for its identity
  as a pointer.
\<close>

datatype go_type = Named string | Pointer go_type | Basic string

datatype objKind = Bad | Pkg | Con | Typ | Var | Fun | Lbl

text \<open>
  The declaration of a named type as \<open>getFieldPositionUsingMethodReceiver\<close> reads it:
  \<open>TypeSpec.Type\<close> is a struct type with its field list (\<open>None\<close> for a \<open>nil\<close>
  list, each field given by its names, \<open>[]\<close> for an embedded field) or something else.
\<close>

datatype typeSpecType = StructType "string list list option" | OtherSpecType

datatype typeDecl = TypeSpec typeSpecType | OtherTypeDecl

record typeObject =
  Kind :: objKind
  TypeDecl :: typeDecl

datatype typeExpr = StarExpr typeExpr | TypeIdent "typeObject option" | OtherTypeExpr

text \<open>
  \<open>ast.Object\<close>: the position of the declaration and, for the name of a parameter,
  receiver or result, the \<open>ast.Field\<close> that declares it, given by its type expression.
\<close>

datatype decl = FieldDecl typeExpr | OtherDecl

record obj =
  ObjPos :: nat
  Decl :: decl

record ident =
  NamePos :: nat
  Name :: string
  Obj :: "obj option"

datatype token = AND | OtherToken

datatype node =
    Ident ident
  | BasicLit nat
  | CompositeLit nat "node list"
  | KeyValueExpr nat node node
  | FuncLit nat "node list"
  | SelectorExpr nat node string
  | CallExpr nat node "node list"
  | UnaryExpr nat token node
  | AssignStmt nat "node list" "node list"
  | ReturnStmt nat "node list"
  | OtherNode nat "node list"

text \<open>
  The children of a node in the order of \<open>ast.Walk\<close>. Children that hold neither a
  statement nor an expression (comments, the name after the dot of a selector, type
  expressions) are left out: no callback of the analyzer acts on them.
\<close>

fun children :: "node \<Rightarrow> node list" where
  "children (Ident _) = []"
| "children (BasicLit _) = []"
| "children (CompositeLit _ elts) = elts"
| "children (KeyValueExpr _ k v) = [k, v]"
| "children (FuncLit _ body) = body"
| "children (SelectorExpr _ x _) = [x]"
| "children (CallExpr _ f args) = f # args"
| "children (UnaryExpr _ _ x) = [x]"
| "children (AssignStmt _ lhs rhs) = lhs @ rhs"
| "children (ReturnStmt _ results) = results"
| "children (OtherNode _ ns) = ns"

lemma size_member: "c \<in> set ns \<Longrightarrow> size c \<le> size_list size ns"
  by (induction ns) auto

lemma size_children: "c \<in> set (children n) \<Longrightarrow> size c < size n"
  by (cases n) (auto dest: size_member simp: less_Suc_eq_le trans_le_add1 trans_le_add2)

text \<open>
  \<open>ast.Inspect(n, f)\<close> calls \<open>f\<close> on \<open>n\<close> and, when \<open>f\<close> returns \<open>true\<close>, inspects the
  children of \<open>n\<close> in order. Every callback of the analyzer decides whether to descend from
  the node alone, so the nodes it is called on, in order, are a function of the tree and of
  that decision.
\<close>

function inspect :: "(node \<Rightarrow> bool) \<Rightarrow> node \<Rightarrow> node list" where
  "inspect descend n = n # (if descend n then concat (map (inspect descend) (children n)) else [])"
  by pat_completeness auto
termination
  by (relation "measure (\<lambda>(descend, n). size n)") (auto dest: size_children)

declare inspect.simps [simp del]

text \<open>
  What the analyzer asks of the type checker: the type of an expression
  (\<open>pass.TypesInfo.TypeOf\<close>), the value of a constant expression
  (\<open>pass.TypesInfo.Types[e].Value\<close>, \<open>None\<close> for \<open>nil\<close>) and \<open>types.Implements\<close> for
  the three interfaces the analyzer builds.
\<close>

datatype iface = tError | tReeError | tReeErrorWithCause

datatype constantValue = StringVal string | OtherVal

record pass =
  TypeOf :: "node \<Rightarrow> go_type"
  Value :: "node \<Rightarrow> constantValue option"
  Implements :: "go_type \<Rightarrow> iface \<Rightarrow> bool"

text \<open>A panic ends the pass; the model returns it as a value.\<close>

datatype panic =
    PanicNotStarExpr
  | PanicCanThisHappen
  | PanicWhat
  | PanicReturnArity
  | PanicNilDereference
  | PanicTypeAssertion
  | PanicIndexOutOfRange

text \<open>
  A function declaration (\<open>ast.FuncDecl\<close>): its position, the text of its doc comment
  (\<open>None\<close> when \<open>Doc\<close> is \<open>nil\<close>), the receiver list, the name, the result list
  (\<open>Type.Results\<close>) and the body. A field list has its own position; a field has a
  position, names and a type expression; a block has the position of its opening brace,
  its statements and its end.
\<close>

record field =
  FieldPos :: nat
  Names :: "ident list"
  FieldType :: node

record fieldList =
  ListPos :: nat
  FieldList :: "field list"

record blockStmt =
  BlockPos :: nat
  Stmts :: "node list"
  BlockEnd :: nat

record funcDecl =
  FuncPos :: nat
  Doc :: "string option"
  Recv :: "fieldList option"
  FuncName :: ident
  Results :: "fieldList option"
  Body :: "blockStmt option"

text \<open>
  \<open>ast.Inspect\<close> on a declaration: the callbacks of the analyzer act on nothing but the
  statements of the body, which are inspected in order.
\<close>

definition inspectFuncDecl :: "(node \<Rightarrow> bool) \<Rightarrow> funcDecl \<Rightarrow> node list" where
  "inspectFuncDecl descend d =
     (case Body d of
        None \<Rightarrow> []
      | Some b \<Rightarrow> concat (map (inspect descend) (Stmts b)))"

text \<open>
  \<open>Name.IsExported()\<close>: the first rune of the name is an upper-case letter. The model
  reads the first byte, which decides it for a name that starts with an ASCII character.
\<close>

definition IsExported :: "ident \<Rightarrow> bool" where
  "IsExported i = (case Name i of [] \<Rightarrow> False | c # _ \<Rightarrow> CHR ''A'' \<le> c \<and> c \<le> CHR ''Z'')"

definition isMethod :: "funcDecl \<Rightarrow> bool" where
  "isMethod d = (case Recv d of None \<Rightarrow> False | Some r \<Rightarrow> length (FieldList r) = 1)"

section \<open>The analyzer of error types\<close>

record ErrorCodeField =
  FieldName :: string
  Position :: int

record ErrorType =
  Codes :: "string list"
  Field :: "ErrorCodeField option"

datatype codeError = ErrNotString | ErrUnquote | ErrInvalidFormat

text \<open>
  \<open>getErrorCodeFromConstant\<close> renders the constant with \<open>value.String()\<close> and reads it
  back with \<open>strconv.Unquote\<close>. \<open>String()\<close> quotes the string and shortens a quoted form
  of more than 72 runes, which \<open>Unquote\<close> then refuses. The quoted form of a string without
  characters to escape is two runes longer than the string; a string with such a character
  is not a valid code in any case.
\<close>

definition unquoteRendered :: "string \<Rightarrow> string option" where
  "unquoteRendered s = (if length s + 2 > 72 then None else Some s)"

definition getErrorCodeFromConstant :: "constantValue \<Rightarrow> codeError + string" where
  "getErrorCodeFromConstant v =
     (case v of
        OtherVal \<Rightarrow> Inl ErrNotString
      | StringVal s \<Rightarrow>
          (case unquoteRendered s of
             None \<Rightarrow> Inl ErrUnquote
           | Some r \<Rightarrow> if \<not> isErrorCodeValid r then Inl ErrInvalidFormat else Inr r))"

text \<open>\<open>errorTypesSubset\<close>: \<open>types.Identical\<close> is equality of the modelled types.\<close>

definition errorTypesSubset :: "go_type \<Rightarrow> go_type \<Rightarrow> bool" where
  "errorTypesSubset type1 type2 =
     (type1 = type2 \<or> (case type2 of Pointer elem \<Rightarrow> type1 = elem | _ \<Rightarrow> False))"

text \<open>
  \<open>getFieldPositionUsingMethodReceiver\<close>. The loop counts every embedded field and every
  name of a named field, and returns the count at the first name equal to \<open>fieldName\<close>.
\<close>

fun scanNames :: "string list \<Rightarrow> string \<Rightarrow> int \<Rightarrow> int + int" where
  "scanNames [] fieldName i = Inr i"
| "scanNames (name # names) fieldName i =
     (if name = fieldName then Inl i else scanNames names fieldName (i + 1))"

fun scanFields :: "string list list \<Rightarrow> string \<Rightarrow> int \<Rightarrow> int" where
  "scanFields [] fieldName i = - 1"
| "scanFields (names # rest) fieldName i =
     (if names = [] then scanFields rest fieldName (i + 1)
      else (case scanNames names fieldName i of
              Inl found \<Rightarrow> found
            | Inr i' \<Rightarrow> scanFields rest fieldName i'))"

definition getFieldPositionUsingMethodReceiver :: "ident \<Rightarrow> string \<Rightarrow> panic + int" where
  "getFieldPositionUsingMethodReceiver receiver fieldName =
     (case Obj receiver of
        None \<Rightarrow> Inl PanicNilDereference
      | Some ob \<Rightarrow>
         (case Decl ob of
            OtherDecl \<Rightarrow> Inl PanicTypeAssertion
          | FieldDecl receiverType \<Rightarrow>
             (case receiverType of
                StarExpr x \<Rightarrow>
                  (case x of
                     TypeIdent (Some tobj) \<Rightarrow>
                       (if Kind tobj \<noteq> Typ then Inl PanicCanThisHappen
                        else (case TypeDecl tobj of
                                OtherTypeDecl \<Rightarrow> Inl PanicCanThisHappen
                              | TypeSpec (StructType (Some fieldList)) \<Rightarrow> Inr (scanFields fieldList fieldName 0)
                              | TypeSpec _ \<Rightarrow> Inr (- 1)))
                   | _ \<Rightarrow> Inl PanicCanThisHappen)
              | _ \<Rightarrow> Inl PanicNotStarExpr)))"

text \<open>
  \<open>analyseCodeMethod\<close>. The callback skips function literals, and at a return statement
  does not descend when the result is a constant or a field of the receiver. Its state is
  the set of constants, the recorded field name and the diagnostics reported so far.
\<close>

datatype diagnostic =
    DiagCodeError nat codeError
  | DiagOnlySingleField nat string string
  | DiagShouldReturnConstantOrField nat string
  | DiagNotValidField nat string
  | DiagNonLastReturn nat
  | DiagNotLocal nat
  | DiagNotErrorType nat
  | DiagErrorNotLast nat
  | DiagOddDocstring nat string string
  | DiagExportedWithoutCodes nat string

definition isReceiverField :: "ident option \<Rightarrow> node \<Rightarrow> string option" where
  "isReceiverField receiver e =
     (case receiver of
        None \<Rightarrow> None
      | Some r \<Rightarrow>
         (case e of
            SelectorExpr _ (Ident x) sel \<Rightarrow> if Obj x = Obj r then Some sel else None
          | _ \<Rightarrow> None))"

definition codeDescend :: "pass \<Rightarrow> ident option \<Rightarrow> node \<Rightarrow> bool" where
  "codeDescend pass receiver n =
     (case n of
        FuncLit _ _ \<Rightarrow> False
      | ReturnStmt _ [e] \<Rightarrow> Value pass e = None \<and> isReceiverField receiver e = None
      | _ \<Rightarrow> True)"

record codeState =
  constants :: "string set"
  fieldName :: string
  reported :: "diagnostic list"

definition codeReturn :: "pass \<Rightarrow> string \<Rightarrow> ident option \<Rightarrow> node \<Rightarrow> codeState \<Rightarrow> panic + codeState" where
  "codeReturn pass funcName receiver n st =
     (case n of
        ReturnStmt pos results \<Rightarrow>
          (case results of
             [e] \<Rightarrow>
               (case Value pass e of
                  Some v \<Rightarrow>
                    (case getErrorCodeFromConstant v of
                       Inr code \<Rightarrow> Inr (st\<lparr>constants := insert code (constants st)\<rparr>)
                     | Inl err \<Rightarrow> Inr (st\<lparr>reported := reported st @ [DiagCodeError pos err]\<rparr>))
                | None \<Rightarrow>
                    (case isReceiverField receiver e of
                       Some sel \<Rightarrow>
                         (if fieldName st = [] then Inr (st\<lparr>fieldName := sel\<rparr>)
                          else if fieldName st \<noteq> sel
                          then Inr (st\<lparr>reported := reported st @ [DiagOnlySingleField pos sel (fieldName st)]\<rparr>)
                          else Inr st)
                     | None \<Rightarrow>
                         Inr (st\<lparr>reported := reported st @ [DiagShouldReturnConstantOrField pos funcName]\<rparr>)))
           | _ \<Rightarrow> Inl PanicReturnArity)
      | _ \<Rightarrow> Inr st)"

fun codeReturns :: "pass \<Rightarrow> string \<Rightarrow> ident option \<Rightarrow> node list \<Rightarrow> codeState \<Rightarrow> panic + codeState" where
  "codeReturns pass funcName receiver [] st = Inr st"
| "codeReturns pass funcName receiver (n # ns) st =
     (case codeReturn pass funcName receiver n st of
        Inl p \<Rightarrow> Inl p
      | Inr st' \<Rightarrow> codeReturns pass funcName receiver ns st')"

text \<open>
  Modelled from the spec: \<open>codeSet\<close> and its method \<open>slice\<close> are declared in a file that is
  not among the sources. The spec describes a set of error codes with union and difference
  and a sorted slice as its canonical rendering.
\<close>

type_synonym codeSet = "string set"

definition slice :: "codeSet \<Rightarrow> string list" where
  "slice s = sorted_list_of_set s"

definition analyseCodeMethod ::
  "pass \<Rightarrow> funcDecl \<Rightarrow> ident option \<Rightarrow> panic + (ErrorType option \<times> diagnostic list)" where
  "analyseCodeMethod pass d receiver =
     (case codeReturns pass (Name (FuncName d)) receiver
             (inspectFuncDecl (codeDescend pass receiver) d)
             \<lparr>constants = {}, fieldName = [], reported = []\<rparr> of
        Inl p \<Rightarrow> Inl p
      | Inr st \<Rightarrow>
         (case (case receiver of
                  Some r \<Rightarrow>
                    (if fieldName st \<noteq> [] then
                       (case getFieldPositionUsingMethodReceiver r (fieldName st) of
                          Inl p \<Rightarrow> Inl p
                        | Inr position \<Rightarrow>
                            if position \<ge> 0
                            then Inr (Some \<lparr>FieldName = fieldName st, Position = position\<rparr>, reported st)
                            else Inr (None, reported st @ [DiagNotValidField (FuncPos d) (fieldName st)]))
                     else Inr (None, reported st))
                | None \<Rightarrow> Inr (None, reported st)) of
            Inl p \<Rightarrow> Inl p
          | Inr (fld, diags) \<Rightarrow>
              if constants st = {} \<and> fld = None then Inr (None, diags)
              else Inr (Some \<lparr>Codes = slice (constants st), Field = fld\<rparr>, diags)))"

text \<open>
  \<open>getCodeFuncFromError\<close> walks the methods named \<open>Code\<close> and returns the first whose
  receiver type passes \<open>errorTypesSubset\<close> against the type of the error value, with the
  receiver's identifier when the receiver has exactly one name.
\<close>

fun getCodeFuncFromErrorLoop :: "pass \<Rightarrow> funcDecl list \<Rightarrow> go_type \<Rightarrow> panic + (funcDecl \<times> ident option) option" where
  "getCodeFuncFromErrorLoop pass [] err = Inr None"
| "getCodeFuncFromErrorLoop pass (d # ds) err =
     (case Recv d of
        None \<Rightarrow> Inl PanicNilDereference
      | Some r \<Rightarrow>
         (case FieldList r of
            [] \<Rightarrow> Inl PanicIndexOutOfRange
          | receiverField # _ \<Rightarrow>
              if \<not> errorTypesSubset (TypeOf pass (FieldType receiverField)) err
              then getCodeFuncFromErrorLoop pass ds err
              else (case Names receiverField of
                      [name] \<Rightarrow> Inr (Some (d, Some name))
                    | _ \<Rightarrow> Inr (Some (d, None)))))"

definition getCodeFuncFromError ::
  "pass \<Rightarrow> (string \<rightharpoonup> funcDecl list) \<Rightarrow> go_type \<Rightarrow> panic + (funcDecl \<times> ident option) option" where
  "getCodeFuncFromError pass methods err =
     (case methods ''Code'' of
        None \<Rightarrow> Inr None
      | Some ms \<Rightarrow> getCodeFuncFromErrorLoop pass ms err)"

text \<open>
  The relation as the specification words it: the two types are identical, or one of them
  is the pointer to the other, in either direction.
\<close>

definition sameErrorTypeClaimed :: "go_type \<Rightarrow> go_type \<Rightarrow> bool" where
  "sameErrorTypeClaimed t1 t2 = (t1 = t2 \<or> t1 = Pointer t2 \<or> t2 = Pointer t1)"







section \<open>The pre-pass and the declared codes\<close>

text \<open>
  \<open>findErrorReturningFunctions\<close>. \<open>lookup.forEach\<close> calls the function on every
  declaration of the package, in an order Go leaves open; the model takes the declarations
  in the order visited. Indexing the last result of an empty result list is out of range.
\<close>

definition errorReturningFunction :: "pass \<Rightarrow> funcDecl \<Rightarrow> panic + (diagnostic list \<times> funcDecl list)" where
  "errorReturningFunction pass funcDecl =
     (case Results funcDecl of
        None \<Rightarrow> Inr ([], [])
      | Some resultsList \<Rightarrow>
         (case FieldList resultsList of
            [] \<Rightarrow> Inl PanicIndexOutOfRange
          | _ # _ \<Rightarrow>
             (let lastResult = last (FieldList resultsList);
                  typ = TypeOf pass (FieldType lastResult)
              in if \<not> Implements pass typ tError
                 then Inr (map (\<lambda>result. DiagErrorNotLast (FieldPos result))
                             (filter (\<lambda>result. Implements pass (TypeOf pass (FieldType result)) tError)
                                (FieldList resultsList)), [])
                 else Inr ([], [funcDecl]))))"

fun findErrorReturningFunctions :: "pass \<Rightarrow> funcDecl list \<Rightarrow> panic + (diagnostic list \<times> funcDecl list)" where
  "findErrorReturningFunctions pass [] = Inr ([], [])"
| "findErrorReturningFunctions pass (funcDecl # rest) =
     (case errorReturningFunction pass funcDecl of
        Inl p \<Rightarrow> Inl p
      | Inr (diags, funcs) \<Rightarrow>
         (case findErrorReturningFunctions pass rest of
            Inl p \<Rightarrow> Inl p
          | Inr (diags', funcs') \<Rightarrow> Inr (diags @ diags', funcs @ funcs')))"

text \<open>
  \<open>findErrorDocs\<close>. The docstring parser \<open>findErrorDocsSM\<close> is a parameter: it returns an
  error message, or a code set that may be \<open>nil\<close> (\<open>None\<close>). \<open>len\<close> is zero for a \<open>nil\<close>
  set and for an empty one.
\<close>

type_synonym docParser = "string \<Rightarrow> string + codeSet option"

definition findErrorDocs :: "docParser \<Rightarrow> funcDecl \<Rightarrow> string + codeSet option" where
  "findErrorDocs run funcDecl =
     (case Doc funcDecl of
        None \<Rightarrow> Inr None
      | Some text \<Rightarrow> run text)"

definition lenIsZero :: "codeSet option \<Rightarrow> bool" where
  "lenIsZero codes = (case codes of None \<Rightarrow> True | Some s \<Rightarrow> s = {})"

text \<open>
  \<open>findClaimedErrorCodes\<close>. The result \<open>funcCodes\<close> is a Go map from declarations to code
  sets, here a list of pairs with one entry for a key (\<open>AList.update\<close> stores a value).
\<close>

type_synonym funcCodes = "(funcDecl \<times> codeSet) list"

definition receiverImplementsErrorWithCause :: "pass \<Rightarrow> funcDecl \<Rightarrow> bool" where
  "receiverImplementsErrorWithCause pass funcDecl =
     (case Recv funcDecl of
        Some r \<Rightarrow>
          (case FieldList r of
             [receiverField] \<Rightarrow> Implements pass (TypeOf pass (FieldType receiverField)) tReeErrorWithCause
           | _ \<Rightarrow> False)
      | None \<Rightarrow> False)"

fun findClaimedErrorCodesLoop ::
  "pass \<Rightarrow> docParser \<Rightarrow> funcDecl list \<Rightarrow> funcCodes \<Rightarrow> diagnostic list \<Rightarrow> funcCodes \<times> diagnostic list" where
  "findClaimedErrorCodesLoop pass run [] result diags = (result, diags)"
| "findClaimedErrorCodesLoop pass run (funcDecl # rest) result diags =
     (case findErrorDocs run funcDecl of
        Inl err \<Rightarrow>
          findClaimedErrorCodesLoop pass run rest result
            (diags @ [DiagOddDocstring (FuncPos funcDecl) (Name (FuncName funcDecl)) err])
      | Inr codes \<Rightarrow>
          (if lenIsZero codes then
             (if isMethod funcDecl \<and> receiverImplementsErrorWithCause pass funcDecl
              then findClaimedErrorCodesLoop pass run rest result diags
              else if IsExported (FuncName funcDecl)
              then findClaimedErrorCodesLoop pass run rest result
                     (diags @ [DiagExportedWithoutCodes (FuncPos funcDecl) (Name (FuncName funcDecl))])
              else findClaimedErrorCodesLoop pass run rest result diags)
           else findClaimedErrorCodesLoop pass run rest
                  (AList.update funcDecl (case codes of Some s \<Rightarrow> s | None \<Rightarrow> {}) result) diags))"

definition findClaimedErrorCodes :: "pass \<Rightarrow> docParser \<Rightarrow> funcDecl list \<Rightarrow> funcCodes \<times> diagnostic list" where
  "findClaimedErrorCodes pass run funcsToAnalyse = findClaimedErrorCodesLoop pass run funcsToAnalyse [] []"

text \<open>
  \<open>exportFunctionErrorCodes\<close>. \<open>Defs\<close> gives the function object of a declaration's name
  (\<open>pass.TypesInfo.Defs\<close>, \<open>None\<close> when it holds no \<open>*types.Func\<close>); the facts exported are
  listed with the object they are attached to.
\<close>

record ErrorCodes =
  FactCodes :: "string list"

fun exportFunctionErrorCodes :: "(ident \<Rightarrow> nat option) \<Rightarrow> funcCodes \<Rightarrow> (nat \<times> ErrorCodes) list" where
  "exportFunctionErrorCodes Defs [] = []"
| "exportFunctionErrorCodes Defs ((funcDecl, codeSet) # rest) =
     (case Defs (FuncName funcDecl) of
        None \<Rightarrow> exportFunctionErrorCodes Defs rest
      | Some fn \<Rightarrow> (fn, \<lparr>FactCodes = slice codeSet\<rparr>) # exportFunctionErrorCodes Defs rest)"

section \<open>The results of a component\<close>

text \<open>
  Modelled from the spec: the type \<open>funcAnalysisResult\<close> and its method \<open>combineInplace\<close>
  are declared in a file that is not among the sources. The spec describes the result of a
  function as the pair of its affectors and its codes, and the unification of a component
  as the union of both.
\<close>

record funcAnalysisResult =
  affectors :: "node set"
  codes :: codeSet

definition emptyResult :: funcAnalysisResult where
  "emptyResult = \<lparr>affectors = {}, codes = {}\<rparr>"

definition combineInplace :: "funcAnalysisResult \<Rightarrow> funcAnalysisResult \<Rightarrow> funcAnalysisResult" where
  "combineInplace result other =
     \<lparr>affectors = affectors result \<union> affectors other, codes = codes result \<union> codes other\<rparr>"

text \<open>
  \<open>unifyAnalysisResultForComponent\<close>, on the map \<open>lookup.analysisResults\<close>. Reading a key
  that the map does not hold gives the zero value. The method that combines two results is
  an argument \<open>combine\<close>, so that what the function does is separate from what that method
  is taken to do.
\<close>

type_synonym analysisResults = "funcDecl \<rightharpoonup> funcAnalysisResult"

type_synonym combiner = "funcAnalysisResult \<Rightarrow> funcAnalysisResult \<Rightarrow> funcAnalysisResult"

definition resultOf :: "analysisResults \<Rightarrow> funcDecl \<Rightarrow> funcAnalysisResult" where
  "resultOf results funcDecl = (case results funcDecl of None \<Rightarrow> emptyResult | Some r \<Rightarrow> r)"

fun combineComponent :: "combiner \<Rightarrow> analysisResults \<Rightarrow> funcDecl list \<Rightarrow> funcAnalysisResult \<Rightarrow> funcAnalysisResult" where
  "combineComponent combine results [] result = result"
| "combineComponent combine results (funcDecl # component) result =
     combineComponent combine results component (combine result (resultOf results funcDecl))"

fun assignComponent :: "analysisResults \<Rightarrow> funcDecl list \<Rightarrow> funcAnalysisResult \<Rightarrow> analysisResults" where
  "assignComponent results [] result = results"
| "assignComponent results (funcDecl # component) result =
     assignComponent (results(funcDecl \<mapsto> result)) component result"

definition unifyAnalysisResultForComponent ::
  "combiner \<Rightarrow> analysisResults \<Rightarrow> funcDecl list \<Rightarrow> analysisResults \<times> funcAnalysisResult" where
  "unifyAnalysisResultForComponent combine results component =
     (let result = combineComponent combine results component emptyResult
      in (assignComponent results component result, result))"

text \<open>
  The end of \<open>findAffectorsOfErrorReturnInFunc\<close>: the result of the function is stored, and
  when \<open>scc.EndVisit\<close> reports that the function is the root of a component, the component
  is unified. The package \<open>scc\<close> is not among the sources; what \<open>EndVisit\<close> returned is
  an argument.
\<close>

definition endVisit ::
  "combiner \<Rightarrow> analysisResults \<Rightarrow> funcDecl \<Rightarrow> funcAnalysisResult \<Rightarrow> bool \<times> funcDecl list
     \<Rightarrow> analysisResults \<times> funcAnalysisResult" where
  "endVisit combine results funcDecl result ended =
     (let results' = results(funcDecl \<mapsto> result)
      in (case ended of
            (isComponentRoot, component) \<Rightarrow>
              if isComponentRoot then unifyAnalysisResultForComponent combine results' component
              else (results', result)))"

text \<open>
  For statements about the loop of \<open>findClaimedErrorCodes\<close>: the diagnostics one function
  gives rise to, and the code set it declares when that set is not empty.
\<close>

definition claimDiagnostics :: "pass \<Rightarrow> docParser \<Rightarrow> funcDecl \<Rightarrow> diagnostic list" where
  "claimDiagnostics pass run funcDecl =
     (case findErrorDocs run funcDecl of
        Inl err \<Rightarrow> [DiagOddDocstring (FuncPos funcDecl) (Name (FuncName funcDecl)) err]
      | Inr declared \<Rightarrow>
          if lenIsZero declared \<and> \<not> (isMethod funcDecl \<and> receiverImplementsErrorWithCause pass funcDecl)
             \<and> IsExported (FuncName funcDecl)
          then [DiagExportedWithoutCodes (FuncPos funcDecl) (Name (FuncName funcDecl))]
          else [])"

definition declaredCodes :: "docParser \<Rightarrow> funcDecl \<Rightarrow> codeSet option" where
  "declaredCodes run funcDecl =
     (case findErrorDocs run funcDecl of
        Inr (Some s) \<Rightarrow> if s = {} then None else Some s
      | _ \<Rightarrow> None)"

section \<open>The affector engine\<close>

text \<open>
  \<open>findAffectorsInFunc\<close>, for an identifier, inspects the whole function with a callback
  that acts on assignments only. What the callback does at an assignment depends on the
  object of the traced identifier and on the assignment alone: it reports a diagnostic,
  appends the call of a destructuring assignment to the result, recurses into a right-hand
  side, or panics. These effects are listed in the order in which they happen, and then
  carried out in that order.
\<close>

datatype action = Report nat | Affect node | Recurse node | Abort panic

text \<open>
  The loop over the left-hand side of one assignment, from clause \<open>i\<close> on. The second
  component is the callback's answer to \<open>ast.Inspect\<close>: \<open>False\<close> after the diagnostic for a
  non-last position, which also leaves the loop.
\<close>

fun assignClauses :: "obj option \<Rightarrow> node list \<Rightarrow> node list \<Rightarrow> nat \<Rightarrow> node list \<Rightarrow> action list \<times> bool" where
  "assignClauses target lhs rhs i [] = ([], True)"
| "assignClauses target lhs rhs i (clause # clauses) =
     (case clause of
        Ident clauset \<Rightarrow>
          (if Obj clauset = target then
             (if length lhs > length rhs then
                (if i \<noteq> length lhs - 1 then ([Report (NamePos clauset)], False)
                 else (case rhs of
                         [] \<Rightarrow> ([Abort PanicIndexOutOfRange], False)
                       | CallExpr p f args # _ \<Rightarrow>
                           (case assignClauses target lhs rhs (i + 1) clauses of
                              (acts, descend) \<Rightarrow> (Affect (CallExpr p f args) # acts, descend))
                       | _ # _ \<Rightarrow> ([Abort PanicWhat], False)))
              else if i < length rhs then
                (case assignClauses target lhs rhs (i + 1) clauses of
                   (acts, descend) \<Rightarrow> (Recurse (rhs ! i) # acts, descend))
              else ([Abort PanicIndexOutOfRange], False))
           else assignClauses target lhs rhs (i + 1) clauses)
      | _ \<Rightarrow> assignClauses target lhs rhs (i + 1) clauses)"

definition assignActions :: "obj option \<Rightarrow> node \<Rightarrow> action list \<times> bool" where
  "assignActions target n =
     (case n of
        AssignStmt _ lhs rhs \<Rightarrow> assignClauses target lhs rhs 0 lhs
      | _ \<Rightarrow> ([], True))"

definition assignDescend :: "obj option \<Rightarrow> node \<Rightarrow> bool" where
  "assignDescend target n = snd (assignActions target n)"

definition scanActions :: "obj option \<Rightarrow> funcDecl \<Rightarrow> action list" where
  "scanActions target within =
     concat (map (\<lambda>n. fst (assignActions target n)) (inspectFuncDecl (assignDescend target) within))"

text \<open>
  The check that the identifier is a local variable or a named result. \<open>Body.Pos()\<close> on
  a declaration without a body dereferences \<open>nil\<close>.
\<close>

definition checkLocal :: "ident \<Rightarrow> funcDecl \<Rightarrow> panic + diagnostic list" where
  "checkLocal exprt within =
     (case Obj exprt of
        None \<Rightarrow> Inr []
      | Some ob \<Rightarrow>
         (case Body within of
            None \<Rightarrow> Inl PanicNilDereference
          | Some body \<Rightarrow>
             (let withinPos = (case Results within of None \<Rightarrow> BlockPos body | Some rs \<Rightarrow> ListPos rs)
              in if ObjPos ob \<le> withinPos \<or> ObjPos ob \<ge> BlockEnd body
                 then Inr [DiagNotLocal (NamePos exprt)]
                 else Inr [])))"

text \<open>
  The identifiers (\<open>*ast.Ident\<close> nodes) of a tree and of a declaration's body: the
  \<open>visited\<close> map of the engine is a set of them.
\<close>

function identsOf :: "node \<Rightarrow> ident set" where
  "identsOf n = (case n of Ident i \<Rightarrow> {i} | _ \<Rightarrow> {}) \<union> (\<Union>c \<in> set (children n). identsOf c)"
  by pat_completeness auto
termination
  by (relation "measure size") (auto dest: size_children)

declare identsOf.simps [simp del]

definition identsOfDecl :: "funcDecl \<Rightarrow> ident set" where
  "identsOfDecl within = (case Body within of None \<Rightarrow> {} | Some b \<Rightarrow> (\<Union>s \<in> set (Stmts b). identsOf s))"

fun recurseTargets :: "action list \<Rightarrow> node list" where
  "recurseTargets [] = []"
| "recurseTargets (Recurse e # acts) = e # recurseTargets acts"
| "recurseTargets (_ # acts) = recurseTargets acts"

text \<open>
  The engine. It returns the affectors, the \<open>visited\<close> set as the call leaves it (the map is
  shared by all recursive calls) and the diagnostics, or the panic that ended it.
\<close>

function (domintros) findAffectorsInFunc ::
    "pass \<Rightarrow> node \<Rightarrow> funcDecl \<Rightarrow> ident set \<Rightarrow> panic + (node list \<times> ident set \<times> diagnostic list)"
  and runActions ::
    "pass \<Rightarrow> funcDecl \<Rightarrow> action list \<Rightarrow> ident set \<Rightarrow> panic + (node list \<times> ident set \<times> diagnostic list)"
where
  "findAffectorsInFunc pass expr within visited =
     (case expr of
        CallExpr _ _ _ \<Rightarrow> Inr ([expr], visited, [])
      | Ident exprt \<Rightarrow>
          (if exprt \<in> visited then Inr ([], visited, [])
           else (case checkLocal exprt within of
                   Inl p \<Rightarrow> Inl p
                 | Inr diags \<Rightarrow>
                    (case runActions pass within (scanActions (Obj exprt) within) (insert exprt visited) of
                       Inl p \<Rightarrow> Inl p
                     | Inr (result, visited', diags') \<Rightarrow> Inr (result, visited', diags @ diags'))))
      | UnaryExpr pos op _ \<Rightarrow>
          (if op = AND \<and> Implements pass (TypeOf pass expr) tError then Inr ([expr], visited, [])
           else Inr ([], visited, [DiagNotErrorType pos]))
      | CompositeLit _ _ \<Rightarrow> Inr ([expr], visited, [])
      | BasicLit _ \<Rightarrow> Inr ([expr], visited, [])
      | _ \<Rightarrow> Inr ([], visited, []))"
| "runActions pass within [] visited = Inr ([], visited, [])"
| "runActions pass within (a # acts) visited =
     (case a of
        Abort p \<Rightarrow> Inl p
      | Report pos \<Rightarrow>
          (case runActions pass within acts visited of
             Inl p \<Rightarrow> Inl p
           | Inr (result, visited', diags) \<Rightarrow> Inr (result, visited', DiagNonLastReturn pos # diags))
      | Affect e \<Rightarrow>
          (case runActions pass within acts visited of
             Inl p \<Rightarrow> Inl p
           | Inr (result, visited', diags) \<Rightarrow> Inr (e # result, visited', diags))
      | Recurse e \<Rightarrow>
          (case findAffectorsInFunc pass e within visited of
             Inl p \<Rightarrow> Inl p
           | Inr (result, visited', diags) \<Rightarrow>
              (case runActions pass within acts visited' of
                 Inl p \<Rightarrow> Inl p
               | Inr (result', visited'', diags') \<Rightarrow> Inr (result @ result', visited'', diags @ diags'))))"
  by pat_completeness auto

text \<open>
  Termination. Every recursive call on an unvisited identifier adds it to \<open>visited\<close>, and
  the right-hand sides the engine recurses into are nodes of the function's body: the
  number of identifiers of the body (and of the expression traced) that are not yet visited
  decreases. The calls share one \<open>visited\<close> map, so the argument needs that a call only
  adds to it.
\<close>

definition targetIdents :: "action list \<Rightarrow> ident set" where
  "targetIdents acts = (\<Union>e \<in> set (recurseTargets acts). identsOf e)"

fun engineMeasure ::
  "(pass \<times> node \<times> funcDecl \<times> ident set) + (pass \<times> funcDecl \<times> action list \<times> ident set) \<Rightarrow> nat \<times> nat" where
  "engineMeasure (Inl (pass, expr, within, visited)) =
     (card ((identsOfDecl within \<union> identsOf expr) - visited), 0)"
| "engineMeasure (Inr (pass, within, acts, visited)) =
     (card ((identsOfDecl within \<union> targetIdents acts) - visited), Suc (length acts))"

lemma finite_identsOf: "finite (identsOf n)"
proof (induction n rule: identsOf.induct)
  case (1 n)
  then show ?case
    by (subst identsOf.simps) (auto split: node.splits)
qed

lemma finite_identsOfDecl: "finite (identsOfDecl within)"
  by (auto simp: identsOfDecl_def finite_identsOf split: option.splits)

lemma finite_targetIdents: "finite (targetIdents acts)"
  by (auto simp: targetIdents_def finite_identsOf)

lemma identsOf_child: "c \<in> set (children n) \<Longrightarrow> identsOf c \<subseteq> identsOf n"
  by (subst (2) identsOf.simps) auto

lemma inspect_identsOf: "m \<in> set (inspect f n) \<Longrightarrow> identsOf m \<subseteq> identsOf n"
proof (induction f n rule: inspect.induct)
  case (1 descend n)
  from "1.prems" have "m = n \<or> (descend n \<and> (\<exists>c \<in> set (children n). m \<in> set (inspect descend c)))"
    by (subst (asm) inspect.simps) (auto split: if_splits)
  then show ?case
  proof
    assume "m = n" then show ?thesis by simp
  next
    assume "descend n \<and> (\<exists>c \<in> set (children n). m \<in> set (inspect descend c))"
    then obtain c where d: "descend n" and c: "c \<in> set (children n)" and m: "m \<in> set (inspect descend c)"
      by blast
    from "1.IH" [OF d c m] identsOf_child [OF c] show ?thesis by blast
  qed
qed

lemma inspectFuncDecl_identsOf:
  "m \<in> set (inspectFuncDecl f within) \<Longrightarrow> identsOf m \<subseteq> identsOfDecl within"
  by (auto simp: inspectFuncDecl_def identsOfDecl_def split: option.splits dest!: inspect_identsOf)

lemma assignClauses_targets:
  "e \<in> set (recurseTargets (fst (assignClauses target lhs rhs i clauses))) \<Longrightarrow> e \<in> set rhs"
  by (induction target lhs rhs i clauses rule: assignClauses.induct)
     (auto split: node.splits if_splits list.splits prod.splits)

lemma recurseTargets_append: "recurseTargets (xs @ ys) = recurseTargets xs @ recurseTargets ys"
  by (induction xs rule: recurseTargets.induct) auto

lemma recurseTargets_concat: "set (recurseTargets (concat xss)) = (\<Union>xs \<in> set xss. set (recurseTargets xs))"
  by (induction xss) (auto simp: recurseTargets_append)

lemma assignActions_targets:
  "e \<in> set (recurseTargets (fst (assignActions target n))) \<Longrightarrow> e \<in> set (children n)"
  by (auto simp: assignActions_def split: node.splits dest: assignClauses_targets)

lemma scanActions_targets: "targetIdents (scanActions target within) \<subseteq> identsOfDecl within"
proof
  fix x assume "x \<in> targetIdents (scanActions target within)"
  then obtain e n where e: "x \<in> identsOf e" and n: "n \<in> set (inspectFuncDecl (assignDescend target) within)"
      and en: "e \<in> set (recurseTargets (fst (assignActions target n)))"
    by (auto simp: targetIdents_def scanActions_def recurseTargets_concat)
  from assignActions_targets [OF en] have "identsOf e \<subseteq> identsOf n" by (rule identsOf_child)
  with e inspectFuncDecl_identsOf [OF n] show "x \<in> identsOfDecl within" by blast
qed


lemma visited_mono_dom:
  "findAffectorsInFunc_runActions_dom (Inl (pass, expr, within, visited)) \<Longrightarrow>
     findAffectorsInFunc pass expr within visited = Inr (result, visited', diags) \<Longrightarrow> visited \<subseteq> visited'"
  "findAffectorsInFunc_runActions_dom (Inr (pass, within, acts, visited)) \<Longrightarrow>
     runActions pass within acts visited = Inr (result, visited', diags) \<Longrightarrow> visited \<subseteq> visited'"
proof (induction pass expr within visited and pass within acts visited
    arbitrary: result visited' diags and result visited' diags
    rule: findAffectorsInFunc_runActions.pinduct)
  case (1 pass expr within visited)
  from "1.prems" "1.hyps" show ?case
    by (auto simp: findAffectorsInFunc.psimps split: node.splits if_splits sum.splits prod.splits
        dest!: "1.IH")
next
  case (2 pass within visited)
  then show ?case by (simp add: runActions.psimps)
next
  case (3 pass within a acts visited)
  show ?case
  proof (cases a)
    case (Report pos)
    with "3.prems" "3.hyps" show ?thesis
      by (auto simp: runActions.psimps split: sum.splits prod.splits dest: "3.IH"(1))
  next
    case (Affect e)
    with "3.prems" "3.hyps" show ?thesis
      by (auto simp: runActions.psimps split: sum.splits prod.splits dest: "3.IH"(2))
  next
    case (Recurse e)
    with "3.prems" "3.hyps" obtain r1 v1 d1 r2 d2 where
      f: "findAffectorsInFunc pass e within visited = Inr (r1, v1, d1)" and
      r: "runActions pass within acts v1 = Inr (r2, visited', d2)"
      by (auto simp: runActions.psimps split: sum.splits prod.splits)
    from "3.IH"(3) [OF Recurse f] have "visited \<subseteq> v1" .
    moreover from "3.IH"(4) [OF Recurse f refl refl r] have "v1 \<subseteq> visited'" .
    ultimately show ?thesis by blast
  next
    case (Abort p)
    with "3.prems" "3.hyps" show ?thesis by (simp add: runActions.psimps)
  qed
qed


lemma card_unvisited_insert:
  assumes "finite W" "T \<subseteq> W" "x \<notin> v"
  shows "card ((W \<union> T) - insert x v) < card ((W \<union> {x}) - v)"
proof -
  have "(W \<union> T) - insert x v \<subset> (W \<union> {x}) - v" using assms by auto
  moreover have "finite ((W \<union> {x}) - v)" using assms by simp
  ultimately show ?thesis by (rule psubset_card_mono [rotated])
qed

lemma card_unvisited_mono:
  assumes "finite B" "A \<subseteq> B" "v \<subseteq> v'"
  shows "card (A - v') \<le> card (B - v)"
  using assms by (intro card_mono) auto

lemma identsOf_Ident: "identsOf (Ident i) = {i}"
  by (subst identsOf.simps) simp

lemma targetIdents_Cons:
  "targetIdents (Report pos # acts) = targetIdents acts"
  "targetIdents (Affect e # acts) = targetIdents acts"
  "targetIdents (Abort p # acts) = targetIdents acts"
  "targetIdents (Recurse e # acts) = identsOf e \<union> targetIdents acts"
  by (simp_all add: targetIdents_def)

termination findAffectorsInFunc
proof (relation "inv_image (less_than <*lex*> less_than) engineMeasure")
  show "wf (inv_image (less_than <*lex*> less_than) engineMeasure)"
    by (intro wf_inv_image wf_lex_prod wf_less_than)
next
  fix pass :: pass and expr within visited exprt diags
  assume "expr = Ident exprt" "exprt \<notin> visited"
  then show "(Inr (pass, within, scanActions (Obj exprt) within, insert exprt visited),
              Inl (pass, expr, within, visited)) \<in> inv_image (less_than <*lex*> less_than) engineMeasure"
    using card_unvisited_insert [OF finite_identsOfDecl scanActions_targets, of exprt visited within "Obj exprt"]
    by (simp add: identsOf_Ident)
next
  fix pass :: pass and within a acts visited pos
  assume "a = Report pos"
  then show "(Inr (pass, within, acts, visited), Inr (pass, within, a # acts, visited))
      \<in> inv_image (less_than <*lex*> less_than) engineMeasure"
    by (simp add: targetIdents_Cons)
next
  fix pass :: pass and within a acts visited e
  assume "a = Affect e"
  then show "(Inr (pass, within, acts, visited), Inr (pass, within, a # acts, visited))
      \<in> inv_image (less_than <*lex*> less_than) engineMeasure"
    by (simp add: targetIdents_Cons)
next
  fix pass :: pass and within a acts visited e
  assume a: "a = Recurse e"
  have "card ((identsOfDecl within \<union> identsOf e) - visited)
      \<le> card ((identsOfDecl within \<union> (identsOf e \<union> targetIdents acts)) - visited)"
    by (rule card_unvisited_mono) (auto simp: finite_identsOfDecl finite_identsOf finite_targetIdents)
  with a show "(Inl (pass, e, within, visited), Inr (pass, within, a # acts, visited))
      \<in> inv_image (less_than <*lex*> less_than) engineMeasure"
    by (auto simp: targetIdents_Cons)
next
  fix pass :: pass and within a acts visited e b x y xa ya
  assume a: "a = Recurse e"
    and f: "findAffectorsInFunc pass e within visited = Inr b" "(x, y) = b" "(xa, ya) = y"
    and dom: "findAffectorsInFunc_runActions_dom (Inl (pass, e, within, visited))"
  from f have "findAffectorsInFunc pass e within visited = Inr (x, xa, ya)" by auto
  from visited_mono_dom(1) [OF dom this] have sub: "visited \<subseteq> xa" .
  have "card ((identsOfDecl within \<union> targetIdents acts) - xa)
      \<le> card ((identsOfDecl within \<union> (identsOf e \<union> targetIdents acts)) - visited)"
    by (rule card_unvisited_mono) (use sub in \<open>auto simp: finite_identsOfDecl finite_identsOf finite_targetIdents\<close>)
  with a show "(Inr (pass, within, acts, xa), Inr (pass, within, a # acts, visited))
      \<in> inv_image (less_than <*lex*> less_than) engineMeasure"
    by (auto simp: targetIdents_Cons)
qed

declare findAffectorsInFunc.simps [simp del] runActions.simps [simp del]



section \<open>Programs of the examples\<close>

text \<open>
  The error type of the repository's test data, \<open>type Error struct { TheCode string }\<close>
  with the methods \<open>Error\<close>, \<open>Code\<close> and \<open>Cause\<close> on \<open>*Error\<close>, and a type checker that
  knows it: \<open>error\<close> and \<open>*Error\<close> implement \<open>error\<close>, and \<open>*Error\<close> is a coded error
  with a cause. A type expression \<open>T\<close> is an identifier, \<open>*T\<close> a node over it.
\<close>

definition exTypeOf :: "node \<Rightarrow> go_type" where
  "exTypeOf n =
     (case n of
        Ident i \<Rightarrow> Named (Name i)
      | OtherNode _ [Ident i] \<Rightarrow> Pointer (Named (Name i))
      | UnaryExpr _ _ _ \<Rightarrow> Pointer (Named ''Error'')
      | _ \<Rightarrow> Named ''error'')"

definition exImplements :: "go_type \<Rightarrow> iface \<Rightarrow> bool" where
  "exImplements t i =
     (t = Pointer (Named ''Error'') \<or> (i = tError \<and> t = Named ''error''))"

definition exPass :: pass where
  "exPass = \<lparr>TypeOf = exTypeOf, Value = (\<lambda>_. None), Implements = exImplements\<rparr>"

definition typeIdent :: "nat \<Rightarrow> string \<Rightarrow> node" where
  "typeIdent p name = Ident \<lparr>NamePos = p, Name = name, Obj = None\<rparr>"

definition pointerTo :: "nat \<Rightarrow> string \<Rightarrow> node" where
  "pointerTo p name = OtherNode p [typeIdent (p + 1) name]"

definition unnamedResult :: "nat \<Rightarrow> node \<Rightarrow> field" where
  "unnamedResult p t = \<lparr>FieldPos = p, Names = [], FieldType = t\<rparr>"

text \<open>
  \<open>type TwoFields struct { First string; Second string }\<close> with
  \<open>func (e *TwoFields) Code() string { if ... { return e.First }; return e.Second }\<close>.
\<close>

definition twoFieldsType :: typeObject where
  "twoFieldsType = \<lparr>Kind = Typ, TypeDecl = TypeSpec (StructType (Some [[''First''], [''Second'']]))\<rparr>"

definition twoFieldsRecvObj :: obj where
  "twoFieldsRecvObj = \<lparr>ObjPos = 10, Decl = FieldDecl (StarExpr (TypeIdent (Some twoFieldsType)))\<rparr>"

definition twoFieldsRecv :: "nat \<Rightarrow> ident" where
  "twoFieldsRecv p = \<lparr>NamePos = p, Name = ''e'', Obj = Some twoFieldsRecvObj\<rparr>"

definition twoFieldsCode :: funcDecl where
  "twoFieldsCode =
     \<lparr>FuncPos = 5, Doc = None,
      Recv = Some \<lparr>ListPos = 9, FieldList = [\<lparr>FieldPos = 10, Names = [twoFieldsRecv 10], FieldType = pointerTo 12 ''TwoFields''\<rparr>]\<rparr>,
      FuncName = \<lparr>NamePos = 25, Name = ''Code'', Obj = None\<rparr>,
      Results = Some \<lparr>ListPos = 32, FieldList = [unnamedResult 32 (typeIdent 32 ''string'')]\<rparr>,
      Body = Some \<lparr>BlockPos = 39, Stmts =
         [OtherNode 41 [ReturnStmt 50 [SelectorExpr 57 (Ident (twoFieldsRecv 57)) ''First'']],
          ReturnStmt 70 [SelectorExpr 77 (Ident (twoFieldsRecv 77)) ''Second'']],
         BlockEnd = 90\<rparr>\<rparr>"

text \<open>
  \<open>type Value struct { TheCode string }\<close> with a value receiver:
  \<open>func (e Value) Code() string { return e.TheCode }\<close>.
\<close>

definition valueType :: typeObject where
  "valueType = \<lparr>Kind = Typ, TypeDecl = TypeSpec (StructType (Some [[''TheCode'']]))\<rparr>"

definition valueRecvObj :: obj where
  "valueRecvObj = \<lparr>ObjPos = 10, Decl = FieldDecl (TypeIdent (Some valueType))\<rparr>"

definition valueRecv :: "nat \<Rightarrow> ident" where
  "valueRecv p = \<lparr>NamePos = p, Name = ''e'', Obj = Some valueRecvObj\<rparr>"

definition valueCode :: funcDecl where
  "valueCode =
     \<lparr>FuncPos = 5, Doc = None,
      Recv = Some \<lparr>ListPos = 9, FieldList = [\<lparr>FieldPos = 10, Names = [valueRecv 10], FieldType = typeIdent 12 ''Value''\<rparr>]\<rparr>,
      FuncName = \<lparr>NamePos = 19, Name = ''Code'', Obj = None\<rparr>,
      Results = Some \<lparr>ListPos = 26, FieldList = [unnamedResult 26 (typeIdent 26 ''string'')]\<rparr>,
      Body = Some \<lparr>BlockPos = 33, Stmts = [ReturnStmt 35 [SelectorExpr 42 (Ident (valueRecv 42)) ''TheCode'']],
         BlockEnd = 52\<rparr>\<rparr>"

text \<open>
  \<open>func First() (error, int)\<close> and \<open>func Last() (int, error)\<close>, without bodies that matter.
\<close>

definition plainFunc :: "nat \<Rightarrow> string \<Rightarrow> string option \<Rightarrow> field list \<Rightarrow> funcDecl" where
  "plainFunc p name doc results =
     \<lparr>FuncPos = p, Doc = doc, Recv = None,
      FuncName = \<lparr>NamePos = p + 5, Name = name, Obj = None\<rparr>,
      Results = Some \<lparr>ListPos = p + 20, FieldList = results\<rparr>,
      Body = Some \<lparr>BlockPos = p + 40, Stmts = [], BlockEnd = p + 50\<rparr>\<rparr>"

definition errorFirst :: funcDecl where
  "errorFirst = plainFunc 100 ''First'' None
     [unnamedResult 121 (typeIdent 121 ''error''), unnamedResult 128 (typeIdent 128 ''int'')]"

definition errorLast :: funcDecl where
  "errorLast = plainFunc 200 ''Last'' None
     [unnamedResult 221 (typeIdent 221 ''int''), unnamedResult 226 (typeIdent 226 ''error'')]"

text \<open>
  \<open>func Empty() () {}\<close>: a result list in parentheses with nothing in it, which the
  parser gives as a field list that is not \<open>nil\<close> and has no fields.
\<close>

definition emptyResults :: funcDecl where
  "emptyResults = plainFunc 250 ''Empty'' None []"

text \<open>
  From the test data: \<open>CorrectNoErrors1\<close>, whose doc comment declares \<open>Errors: none\<close>.
  Modelled from the spec: the docstring parser is not among the sources; for this doc
  comment the spec gives the empty declared set, for a comment without an \<open>Errors:\<close>
  block the \<open>nil\<close> set.
\<close>

definition correctNoErrors1Doc :: string where
  "correctNoErrors1Doc = ''CorrectNoErrors1 returns no errors and correctly declares that. Errors: none''"

definition correctNoErrors1 :: funcDecl where
  "correctNoErrors1 = plainFunc 300 ''CorrectNoErrors1'' (Some correctNoErrors1Doc)
     [unnamedResult 320 (typeIdent 320 ''error'')]"

definition parserOnNone :: docParser where
  "parserOnNone text = (if text = correctNoErrors1Doc then Inr (Some {}) else Inr None)"

definition exDefs :: "ident \<Rightarrow> nat option" where
  "exDefs i = Some (NamePos i)"

text \<open>
  An exported method of \<open>*Error\<close> that is not \<open>Cause\<close> and has no doc comment:
  \<open>func (e *Error) Unwrap() error\<close>.
\<close>

definition unwrapMethod :: funcDecl where
  "unwrapMethod =
     \<lparr>FuncPos = 400, Doc = None,
      Recv = Some \<lparr>ListPos = 405, FieldList =
        [\<lparr>FieldPos = 406, Names = [\<lparr>NamePos = 406, Name = ''e'', Obj = None\<rparr>], FieldType = pointerTo 408 ''Error''\<rparr>]\<rparr>,
      FuncName = \<lparr>NamePos = 416, Name = ''Unwrap'', Obj = None\<rparr>,
      Results = Some \<lparr>ListPos = 425, FieldList = [unnamedResult 425 (typeIdent 425 ''error'')]\<rparr>,
      Body = Some \<lparr>BlockPos = 431, Stmts = [], BlockEnd = 445\<rparr>\<rparr>"

text \<open>
  Two functions in one component, with results stored for both.
\<close>

definition funcA :: funcDecl where
  "funcA = plainFunc 500 ''A'' None [unnamedResult 520 (typeIdent 520 ''error'')]"

definition funcB :: funcDecl where
  "funcB = plainFunc 600 ''B'' None [unnamedResult 620 (typeIdent 620 ''error'')]"

definition storedResults :: analysisResults where
  "storedResults =
     [funcA \<mapsto> \<lparr>affectors = {BasicLit 540}, codes = {''x''}\<rparr>,
      funcB \<mapsto> \<lparr>affectors = {BasicLit 640}, codes = {''y''}\<rparr>]"

text \<open>
  Assignments and functions for the engine. \<open>err\<close> and \<open>other\<close> are local variables;
  \<open>x, err = f()\<close> and \<open>err, x = f()\<close> destructure a call;
  \<open>func Loop() error { err = other; other = err; return err }\<close> assigns in a cycle;
  \<open>func Modify() error { err = modify(err); return err }\<close> is the self-assignment of the
  spec.
\<close>

definition errObj :: obj where
  "errObj = \<lparr>ObjPos = 721, Decl = OtherDecl\<rparr>"

definition otherObj :: obj where
  "otherObj = \<lparr>ObjPos = 726, Decl = OtherDecl\<rparr>"

definition errAt :: "nat \<Rightarrow> ident" where
  "errAt p = \<lparr>NamePos = p, Name = ''err'', Obj = Some errObj\<rparr>"

definition otherAt :: "nat \<Rightarrow> ident" where
  "otherAt p = \<lparr>NamePos = p, Name = ''other'', Obj = Some otherObj\<rparr>"




definition loopFunc :: funcDecl where
  "loopFunc =
     \<lparr>FuncPos = 700, Doc = None, Recv = None,
      FuncName = \<lparr>NamePos = 705, Name = ''Loop'', Obj = None\<rparr>,
      Results = Some \<lparr>ListPos = 712, FieldList = [unnamedResult 712 (typeIdent 712 ''error'')]\<rparr>,
      Body = Some \<lparr>BlockPos = 718, Stmts =
         [OtherNode 720 [],
          AssignStmt 740 [Ident (errAt 740)] [Ident (otherAt 746)],
          AssignStmt 760 [Ident (otherAt 760)] [Ident (errAt 768)],
          ReturnStmt 780 [Ident (errAt 787)]],
         BlockEnd = 800\<rparr>\<rparr>"

definition modifyCall :: node where
  "modifyCall = CallExpr 746 (typeIdent 746 ''modify'') [Ident (errAt 753)]"

definition modifyFunc :: funcDecl where
  "modifyFunc =
     \<lparr>FuncPos = 700, Doc = None, Recv = None,
      FuncName = \<lparr>NamePos = 705, Name = ''Modify'', Obj = None\<rparr>,
      Results = Some \<lparr>ListPos = 712, FieldList = [unnamedResult 712 (typeIdent 712 ''error'')]\<rparr>,
      Body = Some \<lparr>BlockPos = 718, Stmts =
         [OtherNode 720 [],
          AssignStmt 740 [Ident (errAt 740)] [modifyCall],
          ReturnStmt 780 [Ident (errAt 787)]],
         BlockEnd = 800\<rparr>\<rparr>"




section \<open>The validator agrees with the regular expressions\<close>

lemma validChars_all: "validChars s = list_all isLetterDigitOrDash s"
  by (induction s) (auto simp: isLetterDigitOrDash_def isLetterOrDigit_def isLetter_def)

lemma list_all_butlast_last:
  "xs \<noteq> [] \<Longrightarrow> list_all P xs = (list_all P (butlast xs) \<and> P (last xs))"
  by (induction xs) auto

lemma nth_last_index: "xs \<noteq> [] \<Longrightarrow> xs ! (length xs - 1) = last xs"
  by (simp add: last_conv_nth)

lemma digit_not_letter: "CHR ''0'' \<le> c \<Longrightarrow> c \<le> CHR ''9'' \<Longrightarrow> \<not> isLetter c"
  by (auto simp: isLetter_def less_eq_char_def)

lemma isErrorCodeValid_regex: "isErrorCodeValid s = matchesErrorCodeRegex s"
proof (cases s)
  case Nil
  then show ?thesis
    by (simp add: isErrorCodeValid_def matchesErrorCodeRegex_def matchesSingleLetter_def matchesLongCode_def)
next
  case (Cons c t)
  show ?thesis
  proof (cases t)
    case Nil
    with Cons show ?thesis
      using digit_not_letter [of c]
      by (auto simp: isErrorCodeValid_def matchesErrorCodeRegex_def matchesSingleLetter_def
          matchesLongCode_def isLetter_def)
  next
    case (Cons d rest)
    have ne: "d # rest \<noteq> []" by simp
    have lastidx: "s ! (length s - 1) = last (d # rest)"
      using \<open>s = c # t\<close> Cons nth_last_index [of s] by simp
    have all: "validChars s =
        (isLetterDigitOrDash c \<and> list_all isLetterDigitOrDash (butlast (d # rest)) \<and> isLetterDigitOrDash (last (d # rest)))"
      using \<open>s = c # t\<close> Cons list_all_butlast_last [OF ne, of isLetterDigitOrDash]
      by (simp add: validChars_all)
    have "isErrorCodeValid s =
        (\<not> (c = CHR ''-'' \<or> (c \<ge> CHR ''0'' \<and> c \<le> CHR ''9'')) \<and> last (d # rest) \<noteq> CHR ''-'' \<and> validChars s)"
      using \<open>s = c # t\<close> Cons lastidx by (simp add: isErrorCodeValid_def del: validChars.simps)
    also have "\<dots> = matchesLongCode s"
      unfolding all using \<open>s = c # t\<close> Cons digit_not_letter [of c]
      by (auto simp: matchesLongCode_def isLetterDigitOrDash_def isLetterOrDigit_def isLetter_def)
    finally show ?thesis
      using \<open>s = c # t\<close> Cons by (simp add: matchesErrorCodeRegex_def matchesSingleLetter_def)
  qed
qed

text \<open>
  Claim C3. For every string, the validator accepts it exactly when it matches
  \<open>^[A-Za-z]$\<close> or \<open>^[A-Za-z][A-Za-z0-9-]*[A-Za-z0-9]$\<close>. It accepts \<open>a\<close>, \<open>ValidError\<close>
  and \<open>some-2-error\<close>, and rejects the empty string, \<open>-\<close>, \<open>-x\<close>, \<open>x-\<close>, \<open>0x\<close>,
  \<open>x y\<close> and \<open>x$\<close>.
\<close>

theorem C3_validator_is_regex:
  "(\<forall>s. isErrorCodeValid s = matchesErrorCodeRegex s)
   \<and> isErrorCodeValid ''a'' \<and> isErrorCodeValid ''ValidError'' \<and> isErrorCodeValid ''some-2-error''
   \<and> \<not> isErrorCodeValid [] \<and> \<not> isErrorCodeValid ''-'' \<and> \<not> isErrorCodeValid ''-x''
   \<and> \<not> isErrorCodeValid ''x-'' \<and> \<not> isErrorCodeValid ''0x'' \<and> \<not> isErrorCodeValid ''x y''
   \<and> \<not> isErrorCodeValid ''x$''"
  by (simp add: isErrorCodeValid_regex [symmetric]) (simp add: isErrorCodeValid_def)

theorem C3_validator_is_regex_witness:
  "isErrorCodeValid ''hello-error'' \<and> matchesErrorCodeRegex ''hello-error''
   \<and> \<not> isErrorCodeValid ''invalid-'' \<and> \<not> matchesErrorCodeRegex ''invalid-''"
proof -
  have "isErrorCodeValid ''hello-error'' = matchesErrorCodeRegex ''hello-error''"
    and "isErrorCodeValid ''invalid-'' = matchesErrorCodeRegex ''invalid-''"
    using C3_validator_is_regex by blast+
  moreover have "isErrorCodeValid ''hello-error''" and "\<not> isErrorCodeValid ''invalid-''"
    by (simp_all add: isErrorCodeValid_def)
  ultimately show ?thesis by simp
qed

section \<open>Error types: the relation on types, the resolver of field positions, the walk over Code()\<close>

lemma pointer_neq: "Pointer t \<noteq> t"
  by (induction t) auto

lemma errorTypesSubset_iff: "errorTypesSubset receiver val = (receiver = val \<or> val = Pointer receiver)"
  by (auto simp: errorTypesSubset_def split: go_type.splits)

lemma errorTypesSubset_not_back: "\<not> errorTypesSubset (Pointer t) t"
proof -
  have "t \<noteq> Pointer (Pointer t)"
  proof
    assume "t = Pointer (Pointer t)"
    then have "size t = size (Pointer (Pointer t))" by simp
    then show False by simp
  qed
  with pointer_neq [of t] show ?thesis by (simp add: errorTypesSubset_iff)
qed

lemma getCodeFuncFromError_pointer_receiver:
  "getCodeFuncFromError exPass [''Code'' \<mapsto> [twoFieldsCode]] (Pointer (Named ''TwoFields''))
     = Inr (Some (twoFieldsCode, Some (twoFieldsRecv 10)))
   \<and> getCodeFuncFromError exPass [''Code'' \<mapsto> [twoFieldsCode]] (Named ''TwoFields'') = Inr None"
  by (simp add: getCodeFuncFromError_def errorTypesSubset_iff twoFieldsCode_def pointerTo_def typeIdent_def
      exPass_def exTypeOf_def)

lemma getCodeFuncFromError_value_receiver:
  "getCodeFuncFromError exPass [''Code'' \<mapsto> [valueCode]] (Pointer (Named ''Value''))
     = Inr (Some (valueCode, Some (valueRecv 10)))
   \<and> getCodeFuncFromError exPass [''Code'' \<mapsto> [valueCode]] (Named ''Value'')
     = Inr (Some (valueCode, Some (valueRecv 10)))"
  by (simp add: getCodeFuncFromError_def errorTypesSubset_iff valueCode_def typeIdent_def
      exPass_def exTypeOf_def)

text \<open>
  Claim C6, as stated: the relation that matches the receiver type of a \<open>Code()\<close> method
  against the type of an error value holds when the types are identical or one is the
  pointer to the other, in both directions. It fails for a receiver \<open>*Error\<close> and a value
  of type \<open>Error\<close>.
\<close>

theorem C6_pointer_receiver_counterexample:
  "sameErrorTypeClaimed (Pointer (Named ''Error'')) (Named ''Error'')
   \<and> \<not> errorTypesSubset (Pointer (Named ''Error'')) (Named ''Error'')"
  by (simp add: sameErrorTypeClaimed_def errorTypesSubset_def)

text \<open>
  Claim C6, amended. \<open>errorTypesSubset\<close> holds exactly when the receiver type and the type
  of the value are identical or the type of the value is the pointer to the receiver type.
  A receiver of type \<open>T\<close> matches a value of type \<open>*T\<close>; a receiver of type \<open>*T\<close> does not
  match a value of type \<open>T\<close>.
\<close>

theorem C6_subset_is_directed:
  "errorTypesSubset receiver val = (receiver = val \<or> val = Pointer receiver)
   \<and> errorTypesSubset t (Pointer t) \<and> \<not> errorTypesSubset (Pointer t) t"
  using errorTypesSubset_iff errorTypesSubset_not_back by blast

theorem C6_subset_is_directed_witness:
  "errorTypesSubset (Named ''Error'') (Pointer (Named ''Error''))
   \<and> errorTypesSubset (Named ''Error'') (Named ''Error'')
   \<and> \<not> errorTypesSubset (Pointer (Named ''Error'')) (Named ''Error'')"
  using C6_subset_is_directed [of "Named ''Error''" "Pointer (Named ''Error'')" "Named ''Error''"]
    C6_subset_is_directed [of "Named ''Error''" "Named ''Error''" "Named ''Error''"]
  by simp

lemmas code_eval = analyseCodeMethod_def inspectFuncDecl_def inspect.simps codeDescend_def
  isReceiverField_def codeReturn_def getFieldPositionUsingMethodReceiver_def slice_def

lemma value_receiver_panics:
  assumes "Obj receiver = Some ob" "Decl ob = FieldDecl receiverType" "\<forall>x. receiverType \<noteq> StarExpr x"
  shows "getFieldPositionUsingMethodReceiver receiver name = Inl PanicNotStarExpr"
  using assms by (auto simp: getFieldPositionUsingMethodReceiver_def split: typeExpr.splits)

text \<open>
  Claim C10: resolving the field position of a \<open>Code()\<close> method is total for every legal
  receiver, value receivers included, and nothing unsupported aborts the pass. For the
  value receiver of \<open>func (e Value) Code() string { return e.TheCode }\<close> the resolver
  panics, and with it the analysis of the method.
\<close>

theorem C10_value_receiver_panics:
  "getFieldPositionUsingMethodReceiver (valueRecv 10) ''TheCode'' = Inl PanicNotStarExpr
   \<and> analyseCodeMethod exPass valueCode (Some (valueRecv 10)) = Inl PanicNotStarExpr"
  by (simp add: code_eval valueCode_def valueRecv_def valueRecvObj_def valueType_def exPass_def)















section \<open>The pre-pass, the declared codes and the results of a component\<close>

lemma errorReturningFunction_cases:
  assumes "Results d = Some rl" "FieldList rl \<noteq> []"
  shows "errorReturningFunction pass d =
     (if Implements pass (TypeOf pass (FieldType (last (FieldList rl)))) tError
      then Inr ([], [d])
      else Inr (map (\<lambda>r. DiagErrorNotLast (FieldPos r))
                  (filter (\<lambda>r. Implements pass (TypeOf pass (FieldType r)) tError) (FieldList rl)), []))"
  using assms by (auto simp: errorReturningFunction_def Let_def split: list.splits)

lemma errorReturningFunction_none:
  "Results d = None \<Longrightarrow> errorReturningFunction pass d = Inr ([], [])"
  by (simp add: errorReturningFunction_def)

lemma findErrorReturningFunctions_returns:
  assumes "\<forall>d \<in> set decls. \<forall>rl. Results d = Some rl \<longrightarrow> FieldList rl \<noteq> []"
  shows "\<exists>diags funcs. findErrorReturningFunctions pass decls = Inr (diags, funcs)"
  using assms
proof (induction decls)
  case Nil
  then show ?case by simp
next
  case (Cons d decls)
  then obtain diags funcs where r: "findErrorReturningFunctions pass decls = Inr (diags, funcs)"
    by auto
  show ?case
  proof (cases "Results d")
    case None
    with r show ?thesis by (simp add: errorReturningFunction_none)
  next
    case (Some rl)
    with Cons.prems have "FieldList rl \<noteq> []" by simp
    from errorReturningFunction_cases [OF Some this, of pass] r show ?thesis
      by (auto split: if_splits)
  qed
qed

lemma findErrorReturningFunctions_member:
  assumes "findErrorReturningFunctions pass decls = Inr (diags, funcs)"
    and "d \<in> set decls" "Results d = Some rl" "FieldList rl \<noteq> []"
  shows "if Implements pass (TypeOf pass (FieldType (last (FieldList rl)))) tError
         then d \<in> set funcs
         else (\<forall>r \<in> set (FieldList rl). Implements pass (TypeOf pass (FieldType r)) tError
                 \<longrightarrow> DiagErrorNotLast (FieldPos r) \<in> set diags)"
  using assms(1,2)
proof (induction decls arbitrary: diags funcs)
  case Nil
  then show ?case by simp
next
  case (Cons a decls)
  from Cons.prems(1) obtain d1 f1 d2 f2 where
    a: "errorReturningFunction pass a = Inr (d1, f1)" and
    rest: "findErrorReturningFunctions pass decls = Inr (d2, f2)" and
    eq: "diags = d1 @ d2" "funcs = f1 @ f2"
    by (auto split: sum.splits prod.splits)
  show ?case
  proof (cases "d = a")
    case True
    with a errorReturningFunction_cases [OF assms(3,4), of pass] eq show ?thesis
      by (auto split: if_splits)
  next
    case False
    with Cons.prems(2) have "d \<in> set decls" by simp
    from Cons.IH [OF rest this] eq show ?thesis by (auto split: if_splits)
  qed
qed

lemma findErrorReturningFunctions_funcs:
  assumes "findErrorReturningFunctions pass decls = Inr (diags, funcs)" and "d \<in> set funcs"
  shows "\<exists>rl. Results d = Some rl \<and> Implements pass (TypeOf pass (FieldType (last (FieldList rl)))) tError"
  using assms
proof (induction decls arbitrary: diags funcs)
  case Nil
  then show ?case by simp
next
  case (Cons a decls)
  from Cons.prems(1) obtain d1 f1 d2 f2 where
    a: "errorReturningFunction pass a = Inr (d1, f1)" and
    rest: "findErrorReturningFunctions pass decls = Inr (d2, f2)" and
    eq: "diags = d1 @ d2" "funcs = f1 @ f2"
    by (auto split: sum.splits prod.splits)
  from Cons.prems(2) eq have "d \<in> set f1 \<or> d \<in> set f2" by simp
  then show ?case
  proof
    assume "d \<in> set f1"
    with a show ?thesis
      by (auto simp: errorReturningFunction_def Let_def split: option.splits list.splits if_splits)
  next
    assume "d \<in> set f2"
    from Cons.IH [OF rest this] show ?thesis .
  qed
qed

text \<open>
  What holds of claim C9 on the code: when no declaration has an empty result list, the
  pre-pass returns, and for every declaration with results: if the type of the last result
  implements \<open>error\<close>, the declaration is a candidate; if not, it is no candidate and the
  diagnostic is reported at every result whose type implements \<open>error\<close>.
\<close>

lemma error_returning_functions_classified:
  assumes "\<forall>d \<in> set decls. \<forall>rl. Results d = Some rl \<longrightarrow> FieldList rl \<noteq> []"
  shows "\<exists>diags funcs. findErrorReturningFunctions pass decls = Inr (diags, funcs)
     \<and> (\<forall>d \<in> set decls. \<forall>rl. Results d = Some rl \<longrightarrow>
          (if Implements pass (TypeOf pass (FieldType (last (FieldList rl)))) tError
           then d \<in> set funcs
           else d \<notin> set funcs
              \<and> (\<forall>r \<in> set (FieldList rl). Implements pass (TypeOf pass (FieldType r)) tError
                    \<longrightarrow> DiagErrorNotLast (FieldPos r) \<in> set diags)))"
proof -
  from findErrorReturningFunctions_returns [OF assms, of pass] obtain diags funcs where
    r: "findErrorReturningFunctions pass decls = Inr (diags, funcs)" by blast
  have "\<forall>d \<in> set decls. \<forall>rl. Results d = Some rl \<longrightarrow>
          (if Implements pass (TypeOf pass (FieldType (last (FieldList rl)))) tError
           then d \<in> set funcs
           else d \<notin> set funcs
              \<and> (\<forall>r \<in> set (FieldList rl). Implements pass (TypeOf pass (FieldType r)) tError
                    \<longrightarrow> DiagErrorNotLast (FieldPos r) \<in> set diags))"
  proof (intro ballI allI impI)
    fix d rl assume d: "d \<in> set decls" and rl: "Results d = Some rl"
    with assms have ne: "FieldList rl \<noteq> []" by blast
    from findErrorReturningFunctions_member [OF r d rl ne]
      findErrorReturningFunctions_funcs [OF r, of d] rl
    show "if Implements pass (TypeOf pass (FieldType (last (FieldList rl)))) tError
           then d \<in> set funcs
           else d \<notin> set funcs
              \<and> (\<forall>r \<in> set (FieldList rl). Implements pass (TypeOf pass (FieldType r)) tError
                    \<longrightarrow> DiagErrorNotLast (FieldPos r) \<in> set diags)"
      by (auto split: if_splits)
  qed
  with r show ?thesis by blast
qed

lemmas prepass_examples = errorFirst_def errorLast_def plainFunc_def unnamedResult_def typeIdent_def
  exPass_def exTypeOf_def exImplements_def

lemma error_returning_functions_example:
  "findErrorReturningFunctions exPass [errorFirst, errorLast] = Inr ([DiagErrorNotLast 121], [errorLast])
   \<and> errorLast \<in> set [errorLast] \<and> errorFirst \<notin> set [errorLast]
   \<and> DiagErrorNotLast 121 \<in> set [DiagErrorNotLast 121]"
proof -
  have h: "\<forall>d \<in> set [errorFirst, errorLast]. \<forall>rl. Results d = Some rl \<longrightarrow> FieldList rl \<noteq> []"
    by (auto simp: prepass_examples)
  have e: "findErrorReturningFunctions exPass [errorFirst, errorLast] = Inr ([DiagErrorNotLast 121], [errorLast])"
    by (simp add: errorReturningFunction_def prepass_examples)
  from error_returning_functions_classified [OF h, of exPass] e
  have "(\<forall>d \<in> set [errorFirst, errorLast]. \<forall>rl. Results d = Some rl \<longrightarrow>
          (if Implements exPass (TypeOf exPass (FieldType (last (FieldList rl)))) tError
           then d \<in> set [errorLast]
           else d \<notin> set [errorLast]
              \<and> (\<forall>r \<in> set (FieldList rl). Implements exPass (TypeOf exPass (FieldType r)) tError
                    \<longrightarrow> DiagErrorNotLast (FieldPos r) \<in> set [DiagErrorNotLast 121])))"
    by auto
  then have "errorLast \<in> set [errorLast] \<and> errorFirst \<notin> set [errorLast]
      \<and> DiagErrorNotLast 121 \<in> set [DiagErrorNotLast 121]"
    by (simp add: prepass_examples)
  with e show ?thesis by blast
qed


text \<open>
  Claim C9: every declaration with a non-empty result list whose last result implements
  \<open>error\<close> is made a candidate, and one whose last result does not is diagnosed at its
  earlier error results. \<open>func Last() (int, error)\<close> and \<open>func First() (error, int)\<close>
  are such declarations; in a package that also declares \<open>func Empty() () {}\<close> the pre-pass
  indexes the last result of the empty list and panics, so that \<open>Last\<close> is no candidate
  and \<open>First\<close> is not diagnosed.
\<close>

theorem C9_empty_result_list_panics:
  "Results errorLast = Some \<lparr>ListPos = 220, FieldList = [unnamedResult 221 (typeIdent 221 ''int''),
       unnamedResult 226 (typeIdent 226 ''error'')]\<rparr>
   \<and> Implements exPass (TypeOf exPass (FieldType (unnamedResult 226 (typeIdent 226 ''error'')))) tError
   \<and> Results emptyResults = Some \<lparr>ListPos = 270, FieldList = []\<rparr>
   \<and> errorReturningFunction exPass emptyResults = Inl PanicIndexOutOfRange
   \<and> findErrorReturningFunctions exPass [errorFirst, errorLast, emptyResults] = Inl PanicIndexOutOfRange
   \<and> findErrorReturningFunctions exPass [errorFirst, errorLast]
       = Inr ([DiagErrorNotLast 121], [errorLast])"
  by (simp add: errorReturningFunction_def emptyResults_def prepass_examples)

lemma findClaimedErrorCodesLoop_diags:
  "snd (findClaimedErrorCodesLoop pass run funcs result diags)
     = diags @ concat (map (claimDiagnostics pass run) funcs)"
  by (induction funcs arbitrary: result diags)
     (auto simp: claimDiagnostics_def split: sum.splits)

lemma findClaimedErrorCodesLoop_claims:
  "map_of (fst (findClaimedErrorCodesLoop pass run funcs result diags)) d
     = (if d \<in> set funcs \<and> declaredCodes run d \<noteq> None then declaredCodes run d else map_of result d)"
proof (induction funcs arbitrary: result diags)
  case Nil
  then show ?case by simp
next
  case (Cons a funcs)
  show ?case
  proof (cases "findErrorDocs run a")
    case (Inl err)
    then have "declaredCodes run a = None" by (simp add: declaredCodes_def)
    with Inl Cons.IH show ?thesis by auto
  next
    case (Inr declared)
    show ?thesis
    proof (cases "lenIsZero declared")
      case True
      with Inr have "declaredCodes run a = None"
        by (auto simp: declaredCodes_def lenIsZero_def split: option.splits)
      with Inr True Cons.IH show ?thesis by auto
    next
      case False
      then obtain s where s: "declared = Some s" "s \<noteq> {}"
        by (auto simp: lenIsZero_def split: option.splits)
      with Inr have "declaredCodes run a = Some s" by (simp add: declaredCodes_def)
      with Inr False s Cons.IH show ?thesis
        by (auto simp: update_conv')
    qed
  qed
qed

lemma findClaimedErrorCodesLoop_distinct:
  "distinct (map fst result) \<Longrightarrow>
     distinct (map fst (fst (findClaimedErrorCodesLoop pass run funcs result diags)))"
  by (induction funcs arbitrary: result diags)
     (auto simp: distinct_update split: sum.splits)

lemma exportFunctionErrorCodes_member:
  "(fn, exported) \<in> set (exportFunctionErrorCodes Defs claims)
     = (\<exists>d s. (d, s) \<in> set claims \<and> Defs (FuncName d) = Some fn \<and> exported = \<lparr>FactCodes = slice s\<rparr>)"
proof (induction claims)
  case Nil
  then show ?case by simp
next
  case (Cons p claims)
  obtain a b where p: "p = (a, b)" by (cases p)
  show ?case
  proof (cases "Defs (FuncName a)")
    case None
    with p Cons.IH show ?thesis by auto
  next
    case (Some g)
    have "(fn, exported) \<in> set (exportFunctionErrorCodes Defs (p # claims))
        = ((fn = g \<and> exported = \<lparr>FactCodes = slice b\<rparr>)
            \<or> (fn, exported) \<in> set (exportFunctionErrorCodes Defs claims))"
      using p Some by auto
    also have "\<dots> = (\<exists>d s. (d, s) \<in> set (p # claims) \<and> Defs (FuncName d) = Some fn
        \<and> exported = \<lparr>FactCodes = slice s\<rparr>)"
      unfolding Cons.IH
    proof (intro iffI)
      assume "fn = g \<and> exported = \<lparr>FactCodes = slice b\<rparr>
          \<or> (\<exists>d s. (d, s) \<in> set claims \<and> Defs (FuncName d) = Some fn \<and> exported = \<lparr>FactCodes = slice s\<rparr>)"
      then show "\<exists>d s. (d, s) \<in> set (p # claims) \<and> Defs (FuncName d) = Some fn
          \<and> exported = \<lparr>FactCodes = slice s\<rparr>"
      proof
        assume "fn = g \<and> exported = \<lparr>FactCodes = slice b\<rparr>"
        with p Some have "(a, b) \<in> set (p # claims) \<and> Defs (FuncName a) = Some fn
            \<and> exported = \<lparr>FactCodes = slice b\<rparr>" by simp
        then show ?thesis by blast
      next
        assume "\<exists>d s. (d, s) \<in> set claims \<and> Defs (FuncName d) = Some fn \<and> exported = \<lparr>FactCodes = slice s\<rparr>"
        then obtain d s where "(d, s) \<in> set (p # claims) \<and> Defs (FuncName d) = Some fn
            \<and> exported = \<lparr>FactCodes = slice s\<rparr>" by auto
        then show ?thesis by blast
      qed
    next
      assume "\<exists>d s. (d, s) \<in> set (p # claims) \<and> Defs (FuncName d) = Some fn
          \<and> exported = \<lparr>FactCodes = slice s\<rparr>"
      then obtain d s where m: "(d, s) \<in> set (p # claims)" and f: "Defs (FuncName d) = Some fn"
          and e: "exported = \<lparr>FactCodes = slice s\<rparr>" by blast
      from m have "(d, s) = (a, b) \<or> (d, s) \<in> set claims" using p by simp
      then show "fn = g \<and> exported = \<lparr>FactCodes = slice b\<rparr>
          \<or> (\<exists>d s. (d, s) \<in> set claims \<and> Defs (FuncName d) = Some fn \<and> exported = \<lparr>FactCodes = slice s\<rparr>)"
      proof
        assume "(d, s) = (a, b)"
        with f e Some show ?thesis by simp
      next
        assume "(d, s) \<in> set claims"
        with f e show ?thesis by blast
      qed
    qed
    finally show ?thesis .
  qed
qed

lemma slice_set: "finite s \<Longrightarrow> set (slice s) = s \<and> sorted (slice s) \<and> distinct (slice s)"
  by (simp add: slice_def)

text \<open>
  What holds of claim C1 on the code: a function with a declared set that is not empty gets
  a fact with exactly that set, sorted; and every fact exported belongs to an analysed
  function whose docstring parsed to a set that is not empty, and holds that set.
\<close>

lemma declared_codes_are_exported:
  assumes "d \<in> set funcs" "findErrorDocs run d = Inr (Some s)" "s \<noteq> {}" "Defs (FuncName d) = Some fn"
  shows "(fn, \<lparr>FactCodes = slice s\<rparr>)
     \<in> set (exportFunctionErrorCodes Defs (fst (findClaimedErrorCodes pass run funcs)))"
proof -
  from assms(2,3) have "declaredCodes run d = Some s" by (simp add: declaredCodes_def)
  with assms(1) have "map_of (fst (findClaimedErrorCodes pass run funcs)) d = Some s"
    by (simp add: findClaimedErrorCodes_def findClaimedErrorCodesLoop_claims)
  then have "(d, s) \<in> set (fst (findClaimedErrorCodes pass run funcs))" by (rule map_of_SomeD)
  with assms(4) show ?thesis by (auto simp: exportFunctionErrorCodes_member)
qed

lemma exported_facts_are_declared:
  assumes "(fn, exported) \<in> set (exportFunctionErrorCodes Defs (fst (findClaimedErrorCodes pass run funcs)))"
  shows "\<exists>d s. d \<in> set funcs \<and> findErrorDocs run d = Inr (Some s) \<and> s \<noteq> {}
     \<and> Defs (FuncName d) = Some fn \<and> exported = \<lparr>FactCodes = slice s\<rparr>"
proof -
  let ?claims = "fst (findClaimedErrorCodes pass run funcs)"
  from assms obtain d s where m: "(d, s) \<in> set ?claims" and f: "Defs (FuncName d) = Some fn"
      and exported: "exported = \<lparr>FactCodes = slice s\<rparr>"
    by (auto simp: exportFunctionErrorCodes_member)
  have "distinct (map fst ?claims)"
    by (simp add: findClaimedErrorCodes_def findClaimedErrorCodesLoop_distinct)
  with m have "map_of ?claims d = Some s" by simp
  then have "d \<in> set funcs \<and> declaredCodes run d = Some s"
    by (auto simp: findClaimedErrorCodes_def findClaimedErrorCodesLoop_claims split: if_splits)
  then have "d \<in> set funcs \<and> findErrorDocs run d = Inr (Some s) \<and> s \<noteq> {}"
    by (auto simp: declaredCodes_def split: sum.splits option.splits if_splits)
  with f exported show ?thesis by blast
qed

text \<open>
  What holds of claim C4 on the code: the diagnostics of \<open>findClaimedErrorCodes\<close> are those
  of its functions, in order; a function with no declared code is reported exactly when it
  is exported and is not a method of a coded error with a cause.
\<close>

lemma findClaimedErrorCodes_diags:
  "snd (findClaimedErrorCodes pass run funcs) = concat (map (claimDiagnostics pass run) funcs)"
  by (simp add: findClaimedErrorCodes_def findClaimedErrorCodesLoop_diags)

lemma undeclared_function_diagnostic:
  assumes "findErrorDocs run d = Inr declared" "lenIsZero declared"
  shows "claimDiagnostics pass run d =
     (if IsExported (FuncName d) \<and> \<not> (isMethod d \<and> receiverImplementsErrorWithCause pass d)
      then [DiagExportedWithoutCodes (FuncPos d) (Name (FuncName d))] else [])"
  using assms by (auto simp: claimDiagnostics_def)

lemmas none_example = correctNoErrors1_def correctNoErrors1Doc_def parserOnNone_def plainFunc_def
  unnamedResult_def typeIdent_def exPass_def exTypeOf_def exImplements_def exDefs_def

lemmas unwrap_example = unwrapMethod_def parserOnNone_def unnamedResult_def typeIdent_def pointerTo_def
  exPass_def exTypeOf_def exImplements_def

lemmas claims_eval = findClaimedErrorCodes_def findErrorDocs_def lenIsZero_def isMethod_def
  receiverImplementsErrorWithCause_def IsExported_def

text \<open>
  Claim C1: a function whose docstring parses to a declared set, the empty set of
  \<open>Errors: none\<close> included, gets a fact with exactly that set. For \<open>CorrectNoErrors1\<close> of the
  test data, which declares \<open>Errors: none\<close>, the pass records no claim, reports the function as
  exported without codes, and exports no fact.
\<close>

theorem C1_errors_none_exports_no_fact:
  "findErrorDocs parserOnNone correctNoErrors1 = Inr (Some {})
   \<and> findClaimedErrorCodes exPass parserOnNone [correctNoErrors1]
       = ([], [DiagExportedWithoutCodes 300 ''CorrectNoErrors1''])
   \<and> exportFunctionErrorCodes exDefs (fst (findClaimedErrorCodes exPass parserOnNone [correctNoErrors1])) = []"
  by (simp add: claims_eval none_example)

text \<open>
  Claim C4: an exported function with an empty declared set is reported, except a
  \<open>Cause()\<close> method of a coded error with a cause. The exported method \<open>Unwrap\<close> of such a
  type, without a doc comment, is not reported: the exemption does not look at the name.
\<close>

theorem C4_exemption_ignores_method_name:
  "IsExported (FuncName unwrapMethod) \<and> Name (FuncName unwrapMethod) \<noteq> ''Cause''
   \<and> findErrorDocs parserOnNone unwrapMethod = Inr None
   \<and> findClaimedErrorCodes exPass parserOnNone [unwrapMethod] = ([], [])"
  by (simp add: claims_eval unwrap_example)

lemma combineComponent_affectors:
  assumes "\<And>a b. affectors (combine a b) = affectors a \<union> affectors b"
  shows "affectors (combineComponent combine results component acc) =
     affectors acc \<union> (\<Union>d \<in> set component. affectors (resultOf results d))"
  by (induction component arbitrary: acc) (auto simp: assms)

lemma combineComponent_codes:
  assumes "\<And>a b. codes (combine a b) = codes a \<union> codes b"
  shows "codes (combineComponent combine results component acc) =
     codes acc \<union> (\<Union>d \<in> set component. codes (resultOf results d))"
  by (induction component arbitrary: acc) (auto simp: assms)

lemma assignComponent_keeps:
  "results d = Some r \<Longrightarrow> assignComponent results component r d = Some r"
  by (induction component arbitrary: results) auto

lemma assignComponent_member:
  "d \<in> set component \<Longrightarrow> assignComponent results component r d = Some r"
proof (induction component arbitrary: results)
  case Nil
  then show ?case by simp
next
  case (Cons a component)
  show ?case
  proof (cases "d = a")
    case True
    have "(results(a \<mapsto> r)) d = Some r" using True by simp
    then show ?thesis
      using assignComponent_keeps [of "results(a \<mapsto> r)" d r component] by simp
  next
    case False
    with Cons show ?thesis by simp
  qed
qed

lemma assignComponent_other:
  "d \<notin> set component \<Longrightarrow> assignComponent results component r d = results d"
  by (induction component arbitrary: results) auto

lemma unify_component:
  assumes "\<And>a b. affectors (combine a b) = affectors a \<union> affectors b"
    and "\<And>a b. codes (combine a b) = codes a \<union> codes b"
    and "unifyAnalysisResultForComponent combine results component = (results', unified)"
  shows "(\<forall>d \<in> set component. results' d = Some unified)
     \<and> affectors unified = (\<Union>d \<in> set component. affectors (resultOf results d))
     \<and> codes unified = (\<Union>d \<in> set component. codes (resultOf results d))
     \<and> (\<forall>d. d \<notin> set component \<longrightarrow> results' d = results d)"
proof -
  from assms(3) have u: "unified = combineComponent combine results component emptyResult"
    and r: "results' = assignComponent results component unified"
    by (auto simp: unifyAnalysisResultForComponent_def Let_def)
  from u have "affectors unified = (\<Union>d \<in> set component. affectors (resultOf results d))"
    by (simp add: combineComponent_affectors [OF assms(1)] emptyResult_def)
  moreover from u have "codes unified = (\<Union>d \<in> set component. codes (resultOf results d))"
    by (simp add: combineComponent_codes [OF assms(2)] emptyResult_def)
  moreover from r have "\<forall>d \<in> set component. results' d = Some unified"
    by (simp add: assignComponent_member)
  moreover from r have "\<forall>d. d \<notin> set component \<longrightarrow> results' d = results d"
    by (simp add: assignComponent_other)
  ultimately show ?thesis by blast
qed

text \<open>
  Claim C2. When the visit of a function ends as the root of a component, and combining two
  results takes the union of their affectors and of their codes, then every function of the
  component is given the same result: the union of the affectors and the union of the
  codes of the results stored for the members of the component. The results of other
  functions stay as they were.
\<close>

theorem C2_component_shares_union:
  assumes "\<And>a b. affectors (combine a b) = affectors a \<union> affectors b"
    and "\<And>a b. codes (combine a b) = codes a \<union> codes b"
    and "endVisit combine results funcDecl result (True, component) = (results', unified)"
  shows "(\<forall>d \<in> set component. results' d = Some unified)
     \<and> affectors unified = (\<Union>d \<in> set component. affectors (resultOf (results(funcDecl \<mapsto> result)) d))
     \<and> codes unified = (\<Union>d \<in> set component. codes (resultOf (results(funcDecl \<mapsto> result)) d))
     \<and> (\<forall>d. d \<notin> set component \<longrightarrow> results' d = (results(funcDecl \<mapsto> result)) d)"
proof -
  from assms(3) have "unifyAnalysisResultForComponent combine (results(funcDecl \<mapsto> result)) component
      = (results', unified)"
    by (simp add: endVisit_def Let_def)
  from unify_component [OF assms(1,2) this] show ?thesis .
qed

lemmas component_examples = storedResults_def funcA_def funcB_def plainFunc_def unnamedResult_def
  typeIdent_def

theorem C2_component_shares_union_witness:
  "(\<forall>a b. affectors (combineInplace a b) = affectors a \<union> affectors b)
   \<and> (\<forall>a b. codes (combineInplace a b) = codes a \<union> codes b)
   \<and> snd (endVisit combineInplace storedResults funcB \<lparr>affectors = {BasicLit 640}, codes = {''y''}\<rparr>
            (True, [funcA, funcB]))
       = \<lparr>affectors = {BasicLit 540, BasicLit 640}, codes = {''x'', ''y''}\<rparr>
   \<and> fst (endVisit combineInplace storedResults funcB \<lparr>affectors = {BasicLit 640}, codes = {''y''}\<rparr>
            (True, [funcA, funcB])) funcA
       = Some \<lparr>affectors = {BasicLit 540, BasicLit 640}, codes = {''x'', ''y''}\<rparr>
   \<and> fst (endVisit combineInplace storedResults funcB \<lparr>affectors = {BasicLit 640}, codes = {''y''}\<rparr>
            (True, [funcA, funcB])) funcB
       = Some \<lparr>affectors = {BasicLit 540, BasicLit 640}, codes = {''x'', ''y''}\<rparr>"
proof -
  let ?r = "\<lparr>affectors = {BasicLit 640}, codes = {''y''}\<rparr>"
  let ?e = "endVisit combineInplace storedResults funcB ?r (True, [funcA, funcB])"
  have h1: "\<And>a b. affectors (combineInplace a b) = affectors a \<union> affectors b"
    and h2: "\<And>a b. codes (combineInplace a b) = codes a \<union> codes b"
    by (simp_all add: combineInplace_def)
  have h3: "?e = (fst ?e, snd ?e)" by simp
  have ne: "funcA \<noteq> funcB" by (simp add: component_examples)
  from C2_component_shares_union [OF h1 h2 h3]
  have m: "\<forall>d \<in> set [funcA, funcB]. fst ?e d = Some (snd ?e)"
    and a: "affectors (snd ?e) = (\<Union>d \<in> set [funcA, funcB]. affectors (resultOf (storedResults(funcB \<mapsto> ?r)) d))"
    and c: "codes (snd ?e) = (\<Union>d \<in> set [funcA, funcB]. codes (resultOf (storedResults(funcB \<mapsto> ?r)) d))"
    by blast+
  from a ne have "affectors (snd ?e) = {BasicLit 540, BasicLit 640}"
    by (auto simp: resultOf_def storedResults_def)
  moreover from c ne have "codes (snd ?e) = {''x'', ''y''}"
    by (auto simp: resultOf_def storedResults_def)
  ultimately have s: "snd ?e = \<lparr>affectors = {BasicLit 540, BasicLit 640}, codes = {''x'', ''y''}\<rparr>"
    by (cases "snd ?e") simp
  with m have "fst ?e funcA = Some \<lparr>affectors = {BasicLit 540, BasicLit 640}, codes = {''x'', ''y''}\<rparr>"
    and "fst ?e funcB = Some \<lparr>affectors = {BasicLit 540, BasicLit 640}, codes = {''x'', ''y''}\<rparr>"
    by simp_all
  with h1 h2 s show ?thesis by blast
qed

section \<open>The engine: destructuring assignments, termination\<close>














lemma engine_dom:
  "findAffectorsInFunc_runActions_dom (Inl (pass, expr, within, visited))"
  "findAffectorsInFunc_runActions_dom (Inr (pass, within, acts, visited))"
  by (induction pass expr within visited and pass within acts visited
      rule: findAffectorsInFunc_runActions.induct)
     (auto intro: findAffectorsInFunc_runActions.domintros)

lemma visited_mono:
  "findAffectorsInFunc pass expr within visited = Inr (result, visited', diags) \<Longrightarrow> visited \<subseteq> visited'"
  "runActions pass within acts visited = Inr (result, visited', diags) \<Longrightarrow> visited \<subseteq> visited'"
  by (rule visited_mono_dom(1) [OF engine_dom(1)], assumption)
     (rule visited_mono_dom(2) [OF engine_dom(2)], assumption)

lemma visited_bound:
  "findAffectorsInFunc pass expr within visited = Inr (result, visited', diags) \<Longrightarrow>
     visited' \<subseteq> visited \<union> identsOfDecl within \<union> identsOf expr"
  "runActions pass within acts visited = Inr (result, visited', diags) \<Longrightarrow>
     visited' \<subseteq> visited \<union> identsOfDecl within \<union> targetIdents acts"
proof (induction pass expr within visited and pass within acts visited
    arbitrary: result visited' diags and result visited' diags
    rule: findAffectorsInFunc_runActions.induct)
  case (1 pass expr within visited)
  show ?case
  proof (cases expr)
    case (Ident exprt)
    show ?thesis
    proof (cases "exprt \<in> visited")
      case True
      with "1.prems" Ident show ?thesis by (auto simp: findAffectorsInFunc.simps)
    next
      case False
      with "1.prems" Ident obtain diags0 r d where
        c: "checkLocal exprt within = Inr diags0" and
        r: "runActions pass within (scanActions (Obj exprt) within) (insert exprt visited) = Inr (r, visited', d)"
        by (auto simp: findAffectorsInFunc.simps split: sum.splits prod.splits)
      from "1.IH" [OF Ident False c r] scanActions_targets [of "Obj exprt" within] Ident
      show ?thesis by (auto simp: identsOf_Ident)
    qed
  qed (use "1.prems" in \<open>auto simp: findAffectorsInFunc.simps split: if_splits\<close>)
next
  case (2 pass within visited)
  then show ?case by (auto simp: runActions.simps)
next
  case (3 pass within a acts visited)
  show ?case
  proof (cases a)
    case (Report pos)
    with "3.prems" show ?thesis
      by (auto simp: runActions.simps targetIdents_Cons split: sum.splits prod.splits dest: "3.IH"(1))
  next
    case (Affect e)
    with "3.prems" show ?thesis
      by (auto simp: runActions.simps targetIdents_Cons split: sum.splits prod.splits dest: "3.IH"(2))
  next
    case (Recurse e)
    with "3.prems" obtain r1 v1 d1 r2 d2 where
      f: "findAffectorsInFunc pass e within visited = Inr (r1, v1, d1)" and
      r: "runActions pass within acts v1 = Inr (r2, visited', d2)"
      by (auto simp: runActions.simps split: sum.splits prod.splits)
    from "3.IH"(3) [OF Recurse f] have "v1 \<subseteq> visited \<union> identsOfDecl within \<union> identsOf e" .
    moreover from "3.IH"(4) [OF Recurse f refl refl r]
    have "visited' \<subseteq> v1 \<union> identsOfDecl within \<union> targetIdents acts" .
    ultimately show ?thesis using Recurse by (auto simp: targetIdents_Cons)
  next
    case (Abort p)
    with "3.prems" show ?thesis by (simp add: runActions.simps)
  qed
qed

lemma visited_ident_marked:
  assumes "findAffectorsInFunc pass (Ident exprt) within visited = Inr (result, visited', diags)"
  shows "exprt \<in> visited'"
proof (cases "exprt \<in> visited")
  case True
  with assms show ?thesis by (simp add: findAffectorsInFunc.simps)
next
  case False
  with assms obtain r d where
    "runActions pass within (scanActions (Obj exprt) within) (insert exprt visited) = Inr (r, visited', d)"
    by (auto simp: findAffectorsInFunc.simps split: sum.splits prod.splits)
  from visited_mono(2) [OF this] show ?thesis by simp
qed

text \<open>
  Claim C8. The engine terminates on every input: every input is in the domain of the
  recursion, that is, every chain of recursive calls from it is finite. An identifier
  that is already visited yields nothing. A call that returns has only added to
  \<open>visited\<close>, what it added are identifiers of the function's body or of the traced
  expression, and a traced identifier is among them.
\<close>

theorem C8_engine_terminates:
  "findAffectorsInFunc_runActions_dom (Inl (pass, expr, within, visited))
   \<and> (\<forall>exprt. expr = Ident exprt \<and> exprt \<in> visited \<longrightarrow>
          findAffectorsInFunc pass expr within visited = Inr ([], visited, []))
   \<and> (\<forall>result visited' diags.
          findAffectorsInFunc pass expr within visited = Inr (result, visited', diags) \<longrightarrow>
            visited \<subseteq> visited'
            \<and> visited' \<subseteq> visited \<union> identsOfDecl within \<union> identsOf expr
            \<and> (\<forall>exprt. expr = Ident exprt \<longrightarrow> exprt \<in> visited'))"
proof (intro conjI allI impI)
  show "findAffectorsInFunc_runActions_dom (Inl (pass, expr, within, visited))"
    by (rule engine_dom)
next
  fix exprt assume "expr = Ident exprt \<and> exprt \<in> visited"
  then show "findAffectorsInFunc pass expr within visited = Inr ([], visited, [])"
    by (simp add: findAffectorsInFunc.simps)
next
  fix result visited' diags
  assume r: "findAffectorsInFunc pass expr within visited = Inr (result, visited', diags)"
  from visited_mono(1) [OF r] show "visited \<subseteq> visited'" .
  from visited_bound(1) [OF r] show "visited' \<subseteq> visited \<union> identsOfDecl within \<union> identsOf expr" .
  fix exprt assume "expr = Ident exprt"
  with r visited_ident_marked show "exprt \<in> visited'" by blast
qed

lemmas engine_eval = findAffectorsInFunc.simps runActions.simps scanActions_def inspectFuncDecl_def
  inspect.simps assignDescend_def assignActions_def checkLocal_def

lemmas loop_examples = errAt_def otherAt_def errObj_def otherObj_def loopFunc_def modifyFunc_def
  modifyCall_def typeIdent_def unnamedResult_def



theorem C8_engine_terminates_witness:
  "findAffectorsInFunc exPass (Ident (errAt 787)) loopFunc {errAt 787} = Inr ([], {errAt 787}, [])
   \<and> findAffectorsInFunc exPass (Ident (errAt 787)) loopFunc {}
       = Inr ([], {errAt 787, otherAt 746, errAt 768}, [])
   \<and> errAt 787 \<in> {errAt 787, otherAt 746, errAt 768}
   \<and> findAffectorsInFunc exPass (Ident (errAt 787)) modifyFunc {} = Inr ([modifyCall], {errAt 787}, [])
   \<and> findAffectorsInFunc_runActions_dom (Inl (exPass, Ident (errAt 787), loopFunc, {}))"
proof -
  have h: "Ident (errAt 787) = Ident (errAt 787) \<and> errAt 787 \<in> {errAt 787}" by simp
  with C8_engine_terminates [of exPass "Ident (errAt 787)" loopFunc "{errAt 787}"]
  have a: "findAffectorsInFunc exPass (Ident (errAt 787)) loopFunc {errAt 787} = Inr ([], {errAt 787}, [])"
    by blast
  have b: "findAffectorsInFunc exPass (Ident (errAt 787)) loopFunc {}
      = Inr ([], {errAt 787, otherAt 746, errAt 768}, [])"
    by (simp add: engine_eval loop_examples insert_commute)
  with C8_engine_terminates [of exPass "Ident (errAt 787)" loopFunc "{}"]
  have c: "errAt 787 \<in> {errAt 787, otherAt 746, errAt 768}"
    and d: "findAffectorsInFunc_runActions_dom (Inl (exPass, Ident (errAt 787), loopFunc, {}))"
    by blast+
  have e: "findAffectorsInFunc exPass (Ident (errAt 787)) modifyFunc {} = Inr ([modifyCall], {errAt 787}, [])"
    by (simp add: engine_eval loop_examples)
  from a b c d e show ?thesis by blast
qed

end
